theory Spec2Isabelle
  imports Main "HOL-Library.Word"
begin

unbundle bit_operations_syntax

section \<open>Machine types and the memory layout constants\<close>

text \<open>
  The manager runs on a 32-bit STM32 (ARM Cortex-M, little-endian): \<open>uint32_t\<close>,
  \<open>size_t\<close> and every pointer are 32 bits wide, \<open>uint16_t\<close> is 16 bits wide and
  \<open>unsigned char\<close> is 8 bits wide. A pointer is the address it holds. Arithmetic on
  these types wraps around, as the arithmetic of \<open>'a word\<close> does.
\<close>

type_synonym u8 = "8 word"
type_synonym u16 = "16 word"
type_synonym u32 = "32 word"

text \<open>The byte-addressed address space: flash, RAM and memory-mapped registers.\<close>

type_synonym memory = "u32 \<Rightarrow> u8"

definition START_ADDRESS :: u32 where
  "START_ADDRESS = 0x08006000"

definition END_ADDRESS :: u32 where
  "END_ADDRESS = 0x08020000"

definition PAGE_SIZE :: u32 where
  "PAGE_SIZE = 0x800"

definition METADATA_SIZE :: u32 where
  "METADATA_SIZE = 4"

section \<open>The CRC32 engine of \<open>calculate_crc\<close>\<close>

definition CRC32_POLYNOMIALL :: u32 where
  "CRC32_POLYNOMIALL = 0xEDB88320"

text \<open>
  One round of the inner loop over \<open>j\<close>: the remainder is shifted right by one bit and
  the polynomial is folded in when the bit shifted out was set.
\<close>

definition rem_step :: "u32 \<Rightarrow> u32" where
  "rem_step rem =
     (if rem AND 1 \<noteq> 0 then drop_bit 1 rem XOR CRC32_POLYNOMIALL else drop_bit 1 rem)"

text \<open>The body of the outer loop: \<open>rem = i\<close>, eight rounds, \<open>table[i] = rem\<close>.\<close>

definition table_entry :: "nat \<Rightarrow> u32" where
  "table_entry i = (rem_step ^^ 8) (of_nat i)"

text \<open>The outer loop assigns every one of the 256 entries of the array.\<close>

definition build_table :: "u32 list" where
  "build_table = map table_entry [0..<256]"

text \<open>The fold of one byte: \<open>table[(crc ^ byte) & 0xFF] ^ (crc >> 8)\<close>.\<close>

definition crc_step :: "u32 list \<Rightarrow> u32 \<Rightarrow> u8 \<Rightarrow> u32" where
  "crc_step tbl crc b = tbl ! unat ((crc XOR ucast b) AND 0xFF) XOR drop_bit 8 crc"

text \<open>
  The scan loop \<open>while (len > 0) { crc = table[(crc ^ *dp) & 0xFF] ^ (crc >> 8); ++dp; --len; }\<close>
  with its three variables \<open>dp\<close>, \<open>len\<close> and \<open>crc\<close>. The index is at most 255, so the
  array access is always in range once the table has its 256 entries.
\<close>

function crc_loop :: "u32 list \<Rightarrow> memory \<Rightarrow> u32 \<Rightarrow> u32 \<Rightarrow> u32 \<Rightarrow> u32" where
  "crc_loop tbl mm dp len crc =
     (if 0 < len
      then crc_loop tbl mm (dp + 1) (len - 1) (crc_step tbl crc (mm dp))
      else crc)"
  by pat_completeness auto
termination
  by (relation "measure (\<lambda>(tbl, mm, dp, len, crc). unat len)")
     (auto simp: unat_minus_one word_greater_zero_iff unat_gt_0)

declare crc_loop.simps [simp del]

section \<open>The capability table and the machine it drives\<close>

text \<open>
  The state the hardware primitives work on: the address space and whatever else the
  device holds (lock bits, peripheral state), which the manager never looks at.
\<close>

record 'd machine =
  mem :: memory
  dev :: 'd

text \<open>
  \<open>struct BootOperations\<close>: six function pointers. Each primitive is a function on the
  machine state; the two \<open>bool\<close> primitives also return their status. The fields carry the
  prefix \<open>op_\<close> because \<open>write\<close> and \<open>erase_app\<close> are also methods of the manager.
  A bound table is taken to have all six pointers set. The table \<open>G0_Operations\<close> that
  the header builds for the STM32G0 rests on the vendor's HAL and is not part of the model:
  the properties hold for every table.
\<close>

record 'd BootOperations =
  op_unlock :: "'d machine \<Rightarrow> 'd machine"
  op_lock :: "'d machine \<Rightarrow> 'd machine"
  op_write :: "u32 \<Rightarrow> u32 \<Rightarrow> u32 \<Rightarrow> 'd machine \<Rightarrow> bool \<times> 'd machine"
  op_erase_app :: "'d machine \<Rightarrow> bool \<times> 'd machine"
  op_deinit_peripherals :: "'d machine \<Rightarrow> 'd machine"
  op_deinit_systick :: "'d machine \<Rightarrow> 'd machine"

text \<open>
  What the manager does to the outside, in order: every call through the capability
  table, with its arguments and its status, and the final transfer of control.
\<close>

datatype event =
    EvUnlock
  | EvLock
  | EvWrite u32 u32 u32 bool
  | EvEraseApp bool
  | EvDeinitPeripherals
  | EvDeinitSystick
  | EvJump u32

text \<open>
  Everything outside the manager object: the machine, the two function-local statics
  of \<open>calculate_crc\<close> (\<open>table\<close> and \<open>have_table\<close>, shared by all managers), and the
  record of events so far. The manager's fields and the statics are kept apart from the
  byte memory: a write through a pointer never changes them.
\<close>

record 'd world =
  machine :: "'d machine"
  table :: "u32 list"
  have_table :: bool
  trace :: "event list"

text \<open>The statics at program start: zero-initialised.\<close>

definition boot_world :: "'d machine \<Rightarrow> 'd world" where
  "boot_world h = \<lparr>machine = h, table = replicate 256 0, have_table = False, trace = []\<rparr>"

definition call_unlock :: "'d BootOperations \<Rightarrow> 'd world \<Rightarrow> 'd world" where
  "call_unlock ops w = w\<lparr>machine := op_unlock ops (machine w), trace := trace w @ [EvUnlock]\<rparr>"

definition call_lock :: "'d BootOperations \<Rightarrow> 'd world \<Rightarrow> 'd world" where
  "call_lock ops w = w\<lparr>machine := op_lock ops (machine w), trace := trace w @ [EvLock]\<rparr>"

definition call_write ::
  "'d BootOperations \<Rightarrow> u32 \<Rightarrow> u32 \<Rightarrow> u32 \<Rightarrow> 'd world \<Rightarrow> bool \<times> 'd world" where
  "call_write ops address data sz w =
     (case op_write ops address data sz (machine w) of
        (ret, h) \<Rightarrow> (ret, w\<lparr>machine := h, trace := trace w @ [EvWrite address data sz ret]\<rparr>))"

definition call_erase_app :: "'d BootOperations \<Rightarrow> 'd world \<Rightarrow> bool \<times> 'd world" where
  "call_erase_app ops w =
     (case op_erase_app ops (machine w) of
        (ret, h) \<Rightarrow> (ret, w\<lparr>machine := h, trace := trace w @ [EvEraseApp ret]\<rparr>))"

definition call_deinit_peripherals :: "'d BootOperations \<Rightarrow> 'd world \<Rightarrow> 'd world" where
  "call_deinit_peripherals ops w =
     w\<lparr>machine := op_deinit_peripherals ops (machine w), trace := trace w @ [EvDeinitPeripherals]\<rparr>"

definition call_deinit_systick :: "'d BootOperations \<Rightarrow> 'd world \<Rightarrow> 'd world" where
  "call_deinit_systick ops w =
     w\<lparr>machine := op_deinit_systick ops (machine w), trace := trace w @ [EvDeinitSystick]\<rparr>"

section \<open>The manager\<close>

record 'd STM32BootManager =
  m_operations :: "'d BootOperations option"
  m_was_erased :: bool
  m_write_pointer :: u32

text \<open>The constructor; \<open>None\<close> is the default argument \<open>nullptr\<close>.\<close>

definition STM32BootManager_ctor :: "'d BootOperations option \<Rightarrow> 'd STM32BootManager" where
  "STM32BootManager_ctor operations =
     \<lparr>m_operations = operations, m_was_erased = False, m_write_pointer = START_ADDRESS\<rparr>"

definition set_bootloader_operations ::
  "'d STM32BootManager \<Rightarrow> 'd BootOperations option \<Rightarrow> 'd STM32BootManager" where
  "set_bootloader_operations m operations = m\<lparr>m_operations := operations\<rparr>"

definition get_app_size :: u32 where
  "get_app_size = END_ADDRESS - START_ADDRESS"

definition get_app_start :: u32 where
  "get_app_start = START_ADDRESS"

definition get_app_end :: u32 where
  "get_app_end = END_ADDRESS"

definition get_page_size :: u16 where
  "get_page_size = ucast PAGE_SIZE"

text \<open>
  Every method takes the manager and the world and returns its result with both, also
  where the source changes neither. The method \<open>write\<close> is \<open>write_mgr\<close> here, since
  \<open>write\<close> is a reserved word of the theory language.
\<close>

definition erase_app ::
  "'d STM32BootManager \<Rightarrow> 'd world \<Rightarrow> bool \<times> 'd STM32BootManager \<times> 'd world" where
  "erase_app m w =
     (case m_operations m of
        None \<Rightarrow> (False, m, w)
      | Some ops \<Rightarrow>
          (case call_erase_app ops (call_unlock ops w) of
             (ret, w') \<Rightarrow>
               (ret, if ret then m\<lparr>m_was_erased := True\<rparr> else m, call_lock ops w')))"

text \<open>
  The statement \<open>if(!m_was_erased) if(!erase_app()) return false;\<close>, which \<open>write\<close> and
  \<open>write_continously\<close> both open with: the flag returned says whether the method goes on.
\<close>

definition erase_if_needed ::
  "'d STM32BootManager \<Rightarrow> 'd world \<Rightarrow> bool \<times> 'd STM32BootManager \<times> 'd world" where
  "erase_if_needed m w = (if \<not> m_was_erased m then erase_app m w else (True, m, w))"

definition write_mgr ::
  "'d STM32BootManager \<Rightarrow> u32 \<Rightarrow> u32 \<Rightarrow> u32 \<Rightarrow> 'd world
     \<Rightarrow> bool \<times> 'd STM32BootManager \<times> 'd world" where
  "write_mgr m start data sz w =
     (case m_operations m of
        None \<Rightarrow> (False, m, w)
      | Some ops \<Rightarrow>
          (case erase_if_needed m w of
             (go_on, m1, w1) \<Rightarrow>
               if \<not> go_on then (False, m1, w1)
               else (case call_write ops start data sz (call_unlock ops w1) of
                       (ret, w2) \<Rightarrow> (ret, m1, call_lock ops w2))))"

definition write_continously ::
  "'d STM32BootManager \<Rightarrow> u32 \<Rightarrow> u32 \<Rightarrow> 'd world
     \<Rightarrow> bool \<times> 'd STM32BootManager \<times> 'd world" where
  "write_continously m buffer sz w =
     (case erase_if_needed m w of
        (go_on, m1, w1) \<Rightarrow>
          if \<not> go_on then (False, m1, w1)
          else (case write_mgr m1 (m_write_pointer m1) buffer sz w1 of
                  (ret, m2, w2) \<Rightarrow>
                    (ret,
                     if ret then m2\<lparr>m_write_pointer := m_write_pointer m2 + sz\<rparr> else m2,
                     w2)))"

subsection \<open>\<open>read\<close>\<close>

text \<open>
  A 32-bit access through a \<open>uint32_t*\<close>: four bytes, least significant first. The
  model gives every address a value; that the access is aligned and lands in readable
  memory is left to the caller, as in the source.
\<close>

definition load32 :: "memory \<Rightarrow> u32 \<Rightarrow> u32" where
  "load32 mm a =
     ucast (mm a) OR push_bit 8 (ucast (mm (a + 1))) OR
     push_bit 16 (ucast (mm (a + 2))) OR push_bit 24 (ucast (mm (a + 3)))"

definition store32 :: "memory \<Rightarrow> u32 \<Rightarrow> u32 \<Rightarrow> memory" where
  "store32 mm a v =
     mm(a := ucast v, a + 1 := ucast (drop_bit 8 v),
        a + 2 := ucast (drop_bit 16 v), a + 3 := ucast (drop_bit 24 v))"

text \<open>
  The copy loop \<open>for(uint16_t i = 0; i < size / 4; ++i) dst32[i] = src32[i];\<close>. The
  counter is a 16-bit word: in the comparison it is converted to the 32-bit type of
  \<open>size / 4\<close>, and \<open>++i\<close> wraps from 65535 to 0. The parameter \<open>size\<close> is a
  \<open>const size_t&\<close>: the loop reads the caller's object, at the address \<open>size_ref\<close>, anew
  in every round, so a store of the copy that lands on that object changes the bound. The
  loop need not end, so it is a partial function: \<open>None\<close> is the loop that runs forever.
\<close>

partial_function (option) read_loop ::
  "u32 \<Rightarrow> u32 \<Rightarrow> u32 \<Rightarrow> u16 \<Rightarrow> memory \<Rightarrow> memory option" where
  "read_loop src dst size_ref i mm =
     (if ucast i < load32 mm size_ref div 4
      then read_loop src dst size_ref (i + 1)
             (store32 mm (dst + 4 * ucast i) (load32 mm (src + 4 * ucast i)))
      else Some mm)"

text \<open>
  \<open>read\<close> takes the address of the caller's \<open>size\<close> object. The parameter \<open>address\<close> is
  a reference too, but it is read once, before the first store, and is given here as the
  value it then holds.
\<close>

definition read ::
  "'d STM32BootManager \<Rightarrow> u32 \<Rightarrow> u32 \<Rightarrow> u32 \<Rightarrow> 'd world
     \<Rightarrow> (bool \<times> 'd STM32BootManager \<times> 'd world) option" where
  "read m address dst size_ref w =
     (case m_operations m of
        None \<Rightarrow> Some (False, m, w)
      | Some ops \<Rightarrow>
          (let w1 = call_unlock ops w in
           case read_loop address dst size_ref 0 (mem (machine w1)) of
             None \<Rightarrow> None
           | Some mm \<Rightarrow>
               Some (True, m, call_lock ops (w1\<lparr>machine := (machine w1)\<lparr>mem := mm\<rparr>\<rparr>))))"

subsection \<open>\<open>jump_to_app\<close>\<close>

text \<open>
  The method either returns to its caller or hands the processor to the address it
  computed; what runs there is no longer the manager's.
\<close>

datatype 'd jump_result =
    Returned "'d STM32BootManager" "'d world"
  | Jumped u32 "'d STM32BootManager" "'d world"

definition jump_to_app :: "'d STM32BootManager \<Rightarrow> 'd world \<Rightarrow> 'd jump_result" where
  "jump_to_app m w =
     (case m_operations m of
        None \<Rightarrow> Returned m w
      | Some ops \<Rightarrow>
          (let w1 = call_deinit_peripherals ops w;
               SysJump = load32 (mem (machine w1)) (START_ADDRESS + 4);
               w2 = call_deinit_systick ops w1
           in Jumped SysJump m (w2\<lparr>trace := trace w2 @ [EvJump SysJump]\<rparr>)))"

subsection \<open>\<open>calculate_crc\<close>\<close>

definition calculate_crc ::
  "'d STM32BootManager \<Rightarrow> 'd world \<Rightarrow> u32 \<times> 'd STM32BootManager \<times> 'd world" where
  "calculate_crc m w =
     (case m_operations m of
        None \<Rightarrow> (0, m, w)
      | Some ops \<Rightarrow>
          (let w1 = call_unlock ops w;
               crc = 0;
               len = (END_ADDRESS - START_ADDRESS) - METADATA_SIZE;
               w2 = (if \<not> have_table w1
                     then w1\<lparr>table := build_table, have_table := True\<rparr>
                     else w1);
               crc = NOT crc;
               crc = crc_loop (table w2) (mem (machine w2)) START_ADDRESS len crc
           in (NOT crc, m, call_lock ops w2)))"

section \<open>Vocabulary for the properties\<close>

subsection \<open>Bytes in memory\<close>

text \<open>The \<open>n\<close> bytes a scan starting at \<open>dp\<close> reads, in the order it reads them.\<close>

definition scan_bytes :: "memory \<Rightarrow> u32 \<Rightarrow> nat \<Rightarrow> u8 list" where
  "scan_bytes mm dp n = map (\<lambda>k. mm (dp + of_nat k)) [0..<n]"

text \<open>A memory that holds the bytes \<open>bs\<close> from address \<open>dp\<close> on and is \<open>mm\<close> elsewhere.\<close>

definition place :: "u32 \<Rightarrow> u8 list \<Rightarrow> memory \<Rightarrow> memory" where
  "place dp bs mm = (\<lambda>a. if unat (a - dp) < length bs then bs ! unat (a - dp) else mm a)"

text \<open>
  The CRC-32 of a byte string as the specification words it: the table built from the
  polynomial \<open>0xEDB88320\<close>, the seed \<open>~0\<close>, one fold
  \<open>crc = table[(crc ^ byte) & 0xFF] ^ (crc >> 8)\<close> per byte, and the final complement.
\<close>

definition crc32_ieee :: "u8 list \<Rightarrow> u32" where
  "crc32_ieee bs = NOT (fold (\<lambda>b crc. crc_step build_table crc b) bs (NOT 0))"

text \<open>The addresses \<open>calculate_crc\<close> covers: \<open>[start, end - metadata_size)\<close>.\<close>

definition in_crc_window :: "u32 \<Rightarrow> bool" where
  "in_crc_window a \<longleftrightarrow> START_ADDRESS \<le> a \<and> a < END_ADDRESS - METADATA_SIZE"

text \<open>
  The statics of \<open>calculate_crc\<close> in any state the program can reach: once
  \<open>have_table\<close> is set, \<open>table\<close> holds the table that was built.
\<close>

definition statics_ok :: "'d world \<Rightarrow> bool" where
  "statics_ok w \<longleftrightarrow> (have_table w \<longrightarrow> table w = build_table)"

text \<open>
  A capability whose \<open>unlock\<close>, run on the machine state \<open>h\<close>, leaves the bytes that
  \<open>calculate_crc\<close> covers as they are.
\<close>

definition unlock_keeps_window :: "'d BootOperations \<Rightarrow> 'd machine \<Rightarrow> bool" where
  "unlock_keeps_window ops h \<longleftrightarrow>
     (\<forall>a. in_crc_window a \<longrightarrow> mem (op_unlock ops h) a = mem h a)"

text \<open>
  The caller's \<open>size\<close> object, four bytes from \<open>size_ref\<close> on, shares no byte with the
  first \<open>n\<close> words from \<open>dst\<close> on: a copy of \<open>n\<close> words does not overwrite it.
\<close>

definition size_object_outside :: "u32 \<Rightarrow> u32 \<Rightarrow> nat \<Rightarrow> bool" where
  "size_object_outside size_ref dst n \<longleftrightarrow>
     (\<forall>k<4 * n. \<forall>j<4. size_ref + of_nat j \<noteq> dst + of_nat k)"

text \<open>
  The result of \<open>c\<close> rounds of the copy loop of \<open>read\<close> that start with the counter
  at \<open>i\<close>, for counters that do not wrap.
\<close>

primrec copy_words :: "u32 \<Rightarrow> u32 \<Rightarrow> nat \<Rightarrow> nat \<Rightarrow> memory \<Rightarrow> memory" where
  "copy_words src dst i 0 mm = mm"
| "copy_words src dst i (Suc c) mm =
     copy_words src dst (Suc i) c
       (store32 mm (dst + 4 * of_nat i) (load32 mm (src + 4 * of_nat i)))"

subsection \<open>Sequences of write calls\<close>

datatype call = Write u32 u32 u32 | WriteContinously u32 u32

fun do_call ::
  "'d STM32BootManager \<Rightarrow> 'd world \<Rightarrow> call \<Rightarrow> bool \<times> 'd STM32BootManager \<times> 'd world" where
  "do_call m w (Write start data sz) = write_mgr m start data sz w"
| "do_call m w (WriteContinously buffer sz) = write_continously m buffer sz w"

text \<open>The arguments a call hands to the capability's \<open>write\<close>: address, data, size.\<close>

fun call_args :: "'d STM32BootManager \<Rightarrow> call \<Rightarrow> u32 \<times> u32 \<times> u32" where
  "call_args m (Write start data sz) = (start, data, sz)"
| "call_args m (WriteContinously buffer sz) = (m_write_pointer m, buffer, sz)"

fun run_calls ::
  "'d STM32BootManager \<Rightarrow> 'd world \<Rightarrow> call list
     \<Rightarrow> bool list \<times> 'd STM32BootManager \<times> 'd world" where
  "run_calls m w [] = ([], m, w)"
| "run_calls m w (c # cs) =
     (case do_call m w c of
        (r, m1, w1) \<Rightarrow>
          (case run_calls m1 w1 cs of (rs, m2, w2) \<Rightarrow> (r # rs, m2, w2)))"

definition continuous_calls :: "(u32 \<times> u32) list \<Rightarrow> call list" where
  "continuous_calls bs = map (\<lambda>(buffer, sz). WriteContinously buffer sz) bs"

text \<open>The events between two worlds of one run.\<close>

definition events_since :: "'d world \<Rightarrow> 'd world \<Rightarrow> event list" where
  "events_since w w' = drop (length (trace w)) (trace w')"

fun write_addrs :: "event list \<Rightarrow> u32 list" where
  "write_addrs [] = []"
| "write_addrs (EvWrite a d s r # es) = a # write_addrs es"
| "write_addrs (e # es) = write_addrs es"

fun erase_results :: "event list \<Rightarrow> bool list" where
  "erase_results [] = []"
| "erase_results (EvEraseApp r # es) = r # erase_results es"
| "erase_results (e # es) = erase_results es"

text \<open>
  The erase discipline, read off a trace: \<open>erased\<close> says whether an erase has succeeded
  so far. An erase is only ever started while none has succeeded, and the capability's
  \<open>write\<close> is only ever called after one has.
\<close>

fun erase_discipline :: "bool \<Rightarrow> event list \<Rightarrow> bool" where
  "erase_discipline erased [] = True"
| "erase_discipline erased (EvEraseApp r # es) = (\<not> erased \<and> erase_discipline r es)"
| "erase_discipline erased (EvWrite a d s r # es) = (erased \<and> erase_discipline erased es)"
| "erase_discipline erased (e # es) = erase_discipline erased es"

text \<open>Whether an erase has succeeded once the events have passed.\<close>

fun erase_state :: "bool \<Rightarrow> event list \<Rightarrow> bool" where
  "erase_state erased [] = erased"
| "erase_state erased (EvEraseApp r # es) = erase_state r es"
| "erase_state erased (e # es) = erase_state erased es"

subsection \<open>A capability double\<close>

text \<open>
  A capability table for concrete runs: the device state is a script of statuses, and
  \<open>erase_app\<close> and \<open>write\<close> each answer with the next status of the script, or succeed
  once the script is used up. No primitive touches the memory.
\<close>

definition scripted :: "bool list machine \<Rightarrow> bool \<times> bool list machine" where
  "scripted h = (case dev h of [] \<Rightarrow> (True, h) | b # bs \<Rightarrow> (b, h\<lparr>dev := bs\<rparr>))"

definition scripted_ops :: "bool list BootOperations" where
  "scripted_ops =
     \<lparr>op_unlock = (\<lambda>h. h), op_lock = (\<lambda>h. h),
      op_write = (\<lambda>a d s h. scripted h), op_erase_app = scripted,
      op_deinit_peripherals = (\<lambda>h. h), op_deinit_systick = (\<lambda>h. h)\<rparr>"

definition scripted_world :: "bool list \<Rightarrow> memory \<Rightarrow> bool list world" where
  "scripted_world script mm = boot_world \<lparr>mem = mm, dev = script\<rparr>"

text \<open>
  A memory whose second word of the application region, the bytes at \<open>start + 4\<close> to
  \<open>start + 7\<close>, holds \<open>0x080060C1\<close>; every other byte is \<open>0xFF\<close>, as after an erase.
\<close>

definition vector_memory :: memory where
  "vector_memory =
     (\<lambda>a. if a = 0x08006004 then 0xC1 else if a = 0x08006005 then 0x60
          else if a = 0x08006006 then 0x00 else if a = 0x08006007 then 0x08 else 0xFF)"

text \<open>A memory that is zero except for the four metadata bytes that end the region.\<close>

definition tail_memory :: memory where
  "tail_memory = (\<lambda>a. if 0x0801FFFC \<le> a \<and> a \<le> 0x0801FFFF then 0xAB else 0)"

text \<open>
  Memories for \<open>read\<close>. In the first two the \<open>size\<close> object lies at \<open>0x20040000\<close>,
  right behind the 262144 bytes from \<open>0x20000000\<close> on, and holds 262144 or 10. In the
  third it holds 16 and lies at \<open>0x20000008\<close>, where the third word of a copy to
  \<open>0x20000000\<close> goes, and the third word of the source at \<open>0x08006000\<close> is 12.
\<close>

definition large_size_memory :: memory where
  "large_size_memory = place 0x20040000 [0x00, 0x00, 0x04, 0x00] (\<lambda>a. 0)"

definition small_size_memory :: memory where
  "small_size_memory = place 0x20040000 [0x0A, 0x00, 0x00, 0x00] (\<lambda>a. 0)"

definition alias_memory :: memory where
  "alias_memory =
     place 0x20000008 [0x10, 0x00, 0x00, 0x00]
       (place 0x08006008 [0x0C, 0x00, 0x00, 0x00] (\<lambda>a. 0))"

section \<open>The CRC32 engine\<close>

lemma unat_of_nat_u32: "n < 2 ^ 32 \<Longrightarrow> unat (of_nat n :: u32) = n"
  by (simp add: unat_of_nat)

lemma scan_bytes_Suc: "scan_bytes mm dp (Suc n) = mm dp # scan_bytes mm (dp + 1) n"
proof -
  have "[0..<Suc n] = 0 # map Suc [0..<n]"
    by (simp only: map_Suc_upt upt_conv_Cons [of 0 "Suc n"] zero_less_Suc)
  then show ?thesis
    by (simp add: scan_bytes_def comp_def add.assoc del: upt_Suc)
qed

text \<open>The scan loop is the left fold of \<open>crc_step\<close> over the bytes it passes.\<close>

lemma crc_loop_fold:
  "n < 2 ^ 32 \<Longrightarrow>
   crc_loop tbl mm dp (of_nat n) crc = fold (\<lambda>b c. crc_step tbl c b) (scan_bytes mm dp n) crc"
proof (induction n arbitrary: dp crc)
  case 0
  show ?case by (simp add: crc_loop.simps scan_bytes_def)
next
  case (Suc n)
  have "unat (of_nat (Suc n) :: u32) = Suc n"
    using Suc.prems by (rule unat_of_nat_u32)
  then have nz: "(of_nat (Suc n) :: u32) \<noteq> 0"
    by (metis Zero_not_Suc unat_0)
  have "crc_loop tbl mm dp (of_nat (Suc n)) crc =
        crc_loop tbl mm (dp + 1) (of_nat (Suc n) - 1) (crc_step tbl crc (mm dp))"
    using nz by (subst crc_loop.simps) (simp add: word_greater_zero_iff)
  also have "(of_nat (Suc n) :: u32) - 1 = of_nat n"
    by simp
  also have "crc_loop tbl mm (dp + 1) (of_nat n) (crc_step tbl crc (mm dp)) =
             fold (\<lambda>b c. crc_step tbl c b) (scan_bytes mm (dp + 1) n) (crc_step tbl crc (mm dp))"
    using Suc.prems by (intro Suc.IH) simp
  finally show ?case by (simp add: scan_bytes_Suc)
qed

lemma place_at:
  "k < length bs \<Longrightarrow> length bs < 2 ^ 32 \<Longrightarrow> place dp bs mm (dp + of_nat k) = bs ! k"
proof -
  assume k: "k < length bs" and l: "length bs < 2 ^ 32"
  have "dp + of_nat k - dp = (of_nat k :: u32)" by simp
  moreover have "unat (of_nat k :: u32) = k"
    using k l by (intro unat_of_nat_u32) simp
  ultimately show ?thesis using k by (simp add: place_def)
qed

lemma scan_place:
  "n = length bs \<Longrightarrow> n < 2 ^ 32 \<Longrightarrow> scan_bytes (place dp bs mm) dp n = bs"
proof (rule nth_equalityI)
  assume n: "n = length bs" "n < 2 ^ 32"
  show "length (scan_bytes (place dp bs mm) dp n) = length bs"
    using n by (simp add: scan_bytes_def)
  fix i assume "i < length (scan_bytes (place dp bs mm) dp n)"
  then have i: "i < length bs" using n by (simp add: scan_bytes_def)
  then have "scan_bytes (place dp bs mm) dp n ! i = place dp bs mm (dp + of_nat i)"
    using n by (simp add: scan_bytes_def)
  then show "scan_bytes (place dp bs mm) dp n ! i = bs ! i"
    using i n place_at [of i bs dp mm] by simp
qed

lemma build_table_nth: "i < 256 \<Longrightarrow> build_table ! i = table_entry i"
  by (simp add: build_table_def)

lemma table_entry_rounds:
  "table_entry i =
     rem_step (rem_step (rem_step (rem_step (rem_step (rem_step (rem_step (rem_step
       (of_nat i))))))))"
  by (simp add: table_entry_def eval_nat_numeral)

text \<open>The accumulator after the nine bytes \<open>"123456789"\<close>, before the final complement.\<close>

lemma crc_fold_check:
  "fold (\<lambda>b c. crc_step build_table c b)
     [0x31, 0x32, 0x33, 0x34, 0x35, 0x36, 0x37, 0x38, 0x39] (NOT 0) = 0x340BC6D9"
  by (simp add: crc_step_def build_table_nth table_entry_rounds rem_step_def
        CRC32_POLYNOMIALL_def mask_eq_exp_minus_1)

lemma ascii_123456789:
  "map of_char ''123456789'' = [0x31, 0x32, 0x33, 0x34, 0x35, 0x36, 0x37, 0x38, 0x39 :: u8]"
  by simp

lemma crc_len: "END_ADDRESS - START_ADDRESS - METADATA_SIZE = (of_nat 106492 :: u32)"
  by (simp add: END_ADDRESS_def START_ADDRESS_def METADATA_SIZE_def)

text \<open>
  What \<open>calculate_crc\<close> returns with a capability bound: the complement of the fold over
  the \<open>106492\<close> bytes from \<open>START_ADDRESS\<close> on, read after \<open>unlock\<close> has run.
\<close>

lemma calculate_crc_bound:
  assumes "m_operations m = Some ops" and "statics_ok w"
  shows "fst (calculate_crc m w) =
           NOT (fold (\<lambda>b c. crc_step build_table c b)
                  (scan_bytes (mem (op_unlock ops (machine w))) START_ADDRESS 106492) (NOT 0))"
proof -
  have "fst (calculate_crc m w) =
          NOT (crc_loop build_table (mem (op_unlock ops (machine w))) START_ADDRESS
                 (END_ADDRESS - START_ADDRESS - METADATA_SIZE) (NOT 0))"
    using assms by (auto simp: calculate_crc_def Let_def call_unlock_def statics_ok_def)
  also have "crc_loop build_table (mem (op_unlock ops (machine w))) START_ADDRESS
                 (END_ADDRESS - START_ADDRESS - METADATA_SIZE) (NOT 0) =
             fold (\<lambda>b c. crc_step build_table c b)
                  (scan_bytes (mem (op_unlock ops (machine w))) START_ADDRESS 106492) (NOT 0)"
    unfolding crc_len by (rule crc_loop_fold) simp
  finally show ?thesis .
qed

lemma calculate_crc_is_crc32:
  assumes "m_operations m = Some ops" and "statics_ok w"
  shows "fst (calculate_crc m w) =
           crc32_ieee (scan_bytes (mem (op_unlock ops (machine w))) START_ADDRESS 106492)"
  using calculate_crc_bound [OF assms] by (simp add: crc32_ieee_def)

lemma crc32_ieee_check: "crc32_ieee (map of_char ''123456789'') = 0xCBF43926"
  unfolding crc32_ieee_def ascii_123456789 crc_fold_check by simp

lemma crc_loop_check:
  "NOT (crc_loop build_table (place dp (map of_char ''123456789'') mm) dp 9 (NOT 0)) = 0xCBF43926"
proof -
  let ?bs = "[0x31, 0x32, 0x33, 0x34, 0x35, 0x36, 0x37, 0x38, 0x39] :: u8 list"
  have "crc_loop build_table (place dp ?bs mm) dp (of_nat 9) (NOT 0) =
        fold (\<lambda>b c. crc_step build_table c b) (scan_bytes (place dp ?bs mm) dp 9) (NOT 0)"
    by (rule crc_loop_fold) simp
  also have "scan_bytes (place dp ?bs mm) dp 9 = ?bs"
    by (rule scan_place) simp_all
  also note crc_fold_check
  finally have "crc_loop build_table (place dp ?bs mm) dp 9 (NOT 0) = 0x340BC6D9"
    by simp
  then have "NOT (crc_loop build_table (place dp ?bs mm) dp 9 (NOT 0)) = 0xCBF43926"
    by simp
  then show ?thesis by (simp only: ascii_123456789)
qed

text \<open>
  C3. \<open>calculate_crc\<close> is the standard IEEE 802.3 CRC-32. With a capability bound it
  returns \<open>crc32_ieee\<close> of the bytes it scans, that is the table built from the polynomial
  \<open>0xEDB88320\<close>, the seed \<open>~0\<close>, the fold of the source per byte and the final
  complement; and that function gives the check value \<open>0xCBF43926\<close> on the nine ASCII
  bytes \<open>"123456789"\<close>. So does the scan loop of the source itself, run with that seed
  over the nine bytes wherever in memory they lie, and complemented.
\<close>

theorem crc32_check_value:
  assumes "m_operations m = Some ops" and "statics_ok w"
  shows "fst (calculate_crc m w) =
           crc32_ieee (scan_bytes (mem (op_unlock ops (machine w))) START_ADDRESS 106492) \<and>
         crc32_ieee (map of_char ''123456789'') = 0xCBF43926 \<and>
         NOT (crc_loop build_table (place dp (map of_char ''123456789'') mm) dp 9 (NOT 0)) =
           0xCBF43926"
  using calculate_crc_is_crc32 [OF assms] crc32_ieee_check crc_loop_check [of dp mm]
  by simp

theorem crc32_check_value_witness:
  "fst (calculate_crc (STM32BootManager_ctor (Some scripted_ops))
          (scripted_world [] vector_memory)) =
     crc32_ieee (scan_bytes vector_memory START_ADDRESS 106492) \<and>
   crc32_ieee (map of_char ''123456789'') = 0xCBF43926"
proof -
  have b: "m_operations (STM32BootManager_ctor (Some scripted_ops)) = Some scripted_ops"
    by (simp add: STM32BootManager_ctor_def)
  have s: "statics_ok (scripted_world [] vector_memory)"
    by (simp add: statics_ok_def scripted_world_def boot_world_def)
  have u: "mem (op_unlock scripted_ops (machine (scripted_world [] vector_memory))) =
           vector_memory"
    by (simp add: scripted_ops_def scripted_world_def boot_world_def)
  from crc32_check_value [OF b s] show ?thesis
    unfolding u by simp
qed

section \<open>The metadata tail\<close>

text \<open>
  The condition on the statics holds at program start and \<open>calculate_crc\<close>, the only
  code that writes them, keeps it.
\<close>

lemma statics_ok_boot: "statics_ok (boot_world h)"
  by (simp add: statics_ok_def boot_world_def)

lemma calculate_crc_keeps_statics_ok:
  "statics_ok w \<Longrightarrow> statics_ok (snd (snd (calculate_crc m w)))"
  by (cases "m_operations m")
     (simp_all add: calculate_crc_def Let_def statics_ok_def call_unlock_def call_lock_def)

lemma window_offsets:
  assumes "k < 106492"
  shows "in_crc_window (START_ADDRESS + of_nat k)"
proof -
  have k: "unat (of_nat k :: u32) = k"
    using assms by (intro unat_of_nat_u32) simp
  have "unat (START_ADDRESS + of_nat k) = 0x08006000 + k"
    using assms by (simp add: unat_word_ariths k START_ADDRESS_def)
  then show ?thesis
    using assms
    by (simp add: in_crc_window_def word_le_nat_alt word_less_nat_alt
          START_ADDRESS_def END_ADDRESS_def METADATA_SIZE_def)
qed

lemma scan_bytes_window:
  assumes "\<forall>a. in_crc_window a \<longrightarrow> m1 a = m2 a"
  shows "scan_bytes m1 START_ADDRESS 106492 = scan_bytes m2 START_ADDRESS 106492"
  using assms by (simp add: scan_bytes_def window_offsets)

text \<open>
  C4. \<open>calculate_crc\<close> depends on the memory only through the bytes in
  \<open>[START_ADDRESS, END_ADDRESS - METADATA_SIZE)\<close>: on two worlds whose memories agree there,
  and differ in any way in the four metadata bytes (or anywhere else), it returns the same
  value. The statics are in a state the program can reach, and the capability's \<open>unlock\<close>
  does not itself change the bytes of the window.
\<close>

theorem calculate_crc_ignores_metadata:
  assumes "statics_ok w1" and "statics_ok w2"
    and "\<forall>a. in_crc_window a \<longrightarrow> mem (machine w1) a = mem (machine w2) a"
    and "\<forall>ops. m_operations m = Some ops \<longrightarrow>
           unlock_keeps_window ops (machine w1) \<and> unlock_keeps_window ops (machine w2)"
  shows "fst (calculate_crc m w1) = fst (calculate_crc m w2)"
proof (cases "m_operations m")
  case None
  then show ?thesis by (simp add: calculate_crc_def)
next
  case (Some ops)
  with assms(4) have "unlock_keeps_window ops (machine w1)" "unlock_keeps_window ops (machine w2)"
    by simp_all
  with assms(3) have "\<forall>a. in_crc_window a \<longrightarrow>
      mem (op_unlock ops (machine w1)) a = mem (op_unlock ops (machine w2)) a"
    by (simp add: unlock_keeps_window_def)
  then have "scan_bytes (mem (op_unlock ops (machine w1))) START_ADDRESS 106492 =
             scan_bytes (mem (op_unlock ops (machine w2))) START_ADDRESS 106492"
    by (rule scan_bytes_window)
  then show ?thesis
    by (simp add: calculate_crc_bound [OF Some assms(1)] calculate_crc_bound [OF Some assms(2)])
qed

theorem calculate_crc_ignores_metadata_witness:
  "fst (calculate_crc (STM32BootManager_ctor (Some scripted_ops)) (scripted_world [] (\<lambda>a. 0))) =
   fst (calculate_crc (STM32BootManager_ctor (Some scripted_ops)) (scripted_world [] tail_memory)) \<and>
   mem (machine (scripted_world [] (\<lambda>a. 0))) 0x0801FFFC \<noteq>
   mem (machine (scripted_world [] tail_memory)) 0x0801FFFC"
proof -
  let ?m = "STM32BootManager_ctor (Some scripted_ops)"
  let ?w1 = "scripted_world [] (\<lambda>a. 0)"
  let ?w2 = "scripted_world [] tail_memory"
  have s: "statics_ok ?w1" "statics_ok ?w2"
    by (simp_all add: statics_ok_def scripted_world_def boot_world_def)
  have agree: "\<forall>a. in_crc_window a \<longrightarrow> mem (machine ?w1) a = mem (machine ?w2) a"
    by (auto simp: in_crc_window_def scripted_world_def boot_world_def tail_memory_def
          END_ADDRESS_def METADATA_SIZE_def)
  have keeps: "\<forall>ops. m_operations ?m = Some ops \<longrightarrow>
           unlock_keeps_window ops (machine ?w1) \<and> unlock_keeps_window ops (machine ?w2)"
    by (simp add: unlock_keeps_window_def STM32BootManager_ctor_def scripted_ops_def)
  have differ: "mem (machine ?w1) 0x0801FFFC \<noteq> mem (machine ?w2) 0x0801FFFC"
    by (simp add: scripted_world_def boot_world_def tail_memory_def)
  from calculate_crc_ignores_metadata [OF s agree keeps] differ show ?thesis
    by simp
qed


section \<open>No capability bound\<close>

text \<open>
  C5. With no capability bound, every public operation leaves the manager (cursor, erase
  flag, binding) and the world (machine, statics, trace: no primitive is called) as they
  were and reports failure in the way its return type allows: \<open>read\<close>, \<open>write\<close> and
  \<open>write_continously\<close> return \<open>false\<close>, \<open>calculate_crc\<close> returns 0, and \<open>jump_to_app\<close>
  returns to its caller without a jump.
\<close>

theorem no_capability_safe_failure:
  assumes "m_operations m = None"
  shows "read m address dst size_ref w = Some (False, m, w) \<and>
         write_mgr m start data sz w = (False, m, w) \<and>
         write_continously m buffer sz w = (False, m, w) \<and>
         calculate_crc m w = (0, m, w) \<and>
         jump_to_app m w = Returned m w"
  using assms
  by (simp add: read_def write_mgr_def write_continously_def calculate_crc_def jump_to_app_def
        erase_if_needed_def erase_app_def)

theorem no_capability_safe_failure_witness:
  "read (STM32BootManager_ctor None) 0x08006000 0x20000000 0x20040000
     (scripted_world [] (\<lambda>a. 0)) =
     Some (False, STM32BootManager_ctor None, scripted_world [] (\<lambda>a. 0)) \<and>
   write_mgr (STM32BootManager_ctor None) 0x08006000 0x20000000 8 (scripted_world [] (\<lambda>a. 0)) =
     (False, STM32BootManager_ctor None, scripted_world [] (\<lambda>a. 0)) \<and>
   write_continously (STM32BootManager_ctor None) 0x20000000 8 (scripted_world [] (\<lambda>a. 0)) =
     (False, STM32BootManager_ctor None, scripted_world [] (\<lambda>a. 0)) \<and>
   calculate_crc (STM32BootManager_ctor None) (scripted_world [] (\<lambda>a. 0)) =
     (0, STM32BootManager_ctor None, scripted_world [] (\<lambda>a. 0)) \<and>
   jump_to_app (STM32BootManager_ctor None) (scripted_world [] (\<lambda>a. 0)) =
     Returned (STM32BootManager_ctor None) (scripted_world [] (\<lambda>a. 0))"
proof -
  have "m_operations (STM32BootManager_ctor None :: bool list STM32BootManager) = None"
    by (simp add: STM32BootManager_ctor_def)
  then show ?thesis
    by (rule no_capability_safe_failure)
qed

section \<open>\<open>read\<close> and its 16-bit counter\<close>

lemma unat_ucast_u16: "unat (ucast (i :: u16) :: u32) = unat i"
proof -
  have "unat i < 2 ^ 16" using unsigned_less [of i] by simp
  then have "unat i < 2 ^ 32" by simp
  then show ?thesis by (simp add: unsigned_ucast_eq take_bit_nat_eq_self)
qed

lemma ucast_u16_less: "65536 \<le> n \<Longrightarrow> (ucast (i :: u16) :: u32) < n"
proof -
  assume a: "65536 \<le> n"
  have "unat i < 65536" using unsigned_less [of i] by simp
  moreover have "65536 \<le> unat n" using a by (simp add: word_le_nat_alt)
  ultimately show ?thesis by (simp add: word_less_nat_alt unat_ucast_u16)
qed

text \<open>The bytes of a 32-bit access.\<close>

lemma load32_bytes:
  "(ucast (load32 mm b) :: u8) = mm b"
  "(ucast (drop_bit 8 (load32 mm b)) :: u8) = mm (b + 1)"
  "(ucast (drop_bit 16 (load32 mm b)) :: u8) = mm (b + 2)"
  "(ucast (drop_bit 24 (load32 mm b)) :: u8) = mm (b + 3)"
  by (rule bit_word_eqI; auto simp: load32_def bit_simps dest: bit_imp_le_length)+

lemma store32_at:
  "store32 mm a v a = ucast v"
  "store32 mm a v (a + 1) = ucast (drop_bit 8 v)"
  "store32 mm a v (a + 2) = ucast (drop_bit 16 v)"
  "store32 mm a v (a + 3) = ucast (drop_bit 24 v)"
  by (simp_all add: store32_def)

lemma store32_other:
  "x \<noteq> a \<Longrightarrow> x \<noteq> a + 1 \<Longrightarrow> x \<noteq> a + 2 \<Longrightarrow> x \<noteq> a + 3 \<Longrightarrow> store32 mm a v x = mm x"
  by (simp add: store32_def)

text \<open>One round: the four bytes of the word are copied, every other byte stays.\<close>

lemma copy_round_at:
  "j < 4 \<Longrightarrow> store32 mm a (load32 mm b) (a + of_nat j) = mm (b + of_nat j)"
proof -
  assume "j < 4"
  then consider "j = 0" | "j = 1" | "j = 2" | "j = 3" by linarith
  then show ?thesis
    by cases (simp_all add: store32_at load32_bytes)
qed

lemma copy_round_other:
  "(\<forall>j<4. x \<noteq> a + of_nat j) \<Longrightarrow> store32 mm a v x = mm x"
proof -
  assume h: "\<forall>j<4. x \<noteq> a + of_nat j"
  from h [rule_format, of 0] h [rule_format, of 1] h [rule_format, of 2] h [rule_format, of 3]
  show ?thesis by (intro store32_other) simp_all
qed



text \<open>A store that shares no byte with a word leaves the word as it was.\<close>

lemma load32_store32_other:
  assumes "\<forall>j<4. \<forall>j'<4. p + of_nat j \<noteq> a + (of_nat j' :: u32)"
  shows "load32 (store32 mm a v) p = load32 mm p"
proof -
  have b: "store32 mm a v (p + of_nat j) = mm (p + of_nat j)" if "j < 4" for j :: nat
    using assms that by (intro copy_round_other) simp
  from b [of 0] b [of 1] b [of 2] b [of 3] show ?thesis
    by (simp add: load32_def)
qed

text \<open>Round \<open>i\<close> of a copy that the \<open>size\<close> object lies outside of does not change it.\<close>

lemma size_object_kept:
  assumes "size_object_outside size_ref dst n" and "i < n"
  shows "load32 (store32 mm (dst + 4 * of_nat i) v) size_ref = load32 mm size_ref"
proof (rule load32_store32_other, intro allI impI)
  fix j j' :: nat assume j: "j < 4" and j': "j' < 4"
  from j' assms(2) have "4 * i + j' < 4 * n" by simp
  with assms(1) j have "size_ref + of_nat j \<noteq> dst + of_nat (4 * i + j')"
    unfolding size_object_outside_def by blast
  then show "size_ref + of_nat j \<noteq> dst + 4 * of_nat i + of_nat j'"
    by (simp add: add.assoc)
qed

text \<open>An object that lies behind the destination words lies outside them.\<close>

lemma size_object_behind:
  assumes "unat dst + 4 * n \<le> unat size_ref" and "unat size_ref + 4 \<le> 2 ^ 32"
  shows "size_object_outside size_ref dst n"
  unfolding size_object_outside_def
proof (intro allI impI notI)
  fix k j :: nat
  assume k: "k < 4 * n" and j: "j < 4" and e: "size_ref + of_nat j = dst + (of_nat k :: u32)"
  have kk: "unat (of_nat k :: u32) = k" and jj: "unat (of_nat j :: u32) = j"
    using k j assms by (simp_all add: unat_of_nat_u32)
  have "unat (dst + of_nat k) = unat dst + k"
    using k assms by (simp add: unat_word_ariths kk)
  moreover have "unat (size_ref + of_nat j) = unat size_ref + j"
    using j assms by (simp add: unat_word_ariths jj)
  ultimately show False using e k assms(1) by simp
qed

text \<open>
  A loop that returns, on a \<open>size\<close> object that the copy cannot reach, has a bound below
  \<open>65536\<close>: above it the 16-bit counter is smaller than the bound at every round, and no
  round changes the bound, so each round leads to another one.
\<close>

lemma read_loop_small_if_Some:
  "read_loop src dst size_ref i mm = Some r \<Longrightarrow>
   size_object_outside size_ref dst 65536 \<longrightarrow> load32 mm size_ref div 4 < 65536"
proof (rule read_loop.raw_induct
        [where P = "\<lambda>src dst size_ref i mm r.
            size_object_outside size_ref dst 65536 \<longrightarrow> load32 mm size_ref div 4 < 65536"
           and y = r])
  fix f :: "u32 \<Rightarrow> u32 \<Rightarrow> u32 \<Rightarrow> u16 \<Rightarrow> memory \<Rightarrow> memory option"
  fix src dst size_ref :: u32 and i :: u16 and mm r :: memory
  assume IH: "\<And>src dst size_ref i mm r. f src dst size_ref i mm = Some r \<Longrightarrow>
      size_object_outside size_ref dst 65536 \<longrightarrow> load32 mm size_ref div 4 < 65536"
  assume step: "(if ucast i < load32 mm size_ref div 4
      then f src dst size_ref (i + 1)
             (store32 mm (dst + 4 * ucast i) (load32 mm (src + 4 * ucast i)))
      else Some mm) = Some r"
  let ?mm = "store32 mm (dst + 4 * ucast i) (load32 mm (src + 4 * ucast i))"
  show "size_object_outside size_ref dst 65536 \<longrightarrow> load32 mm size_ref div 4 < 65536"
  proof (intro impI, rule ccontr)
    assume out: "size_object_outside size_ref dst 65536"
    assume "\<not> load32 mm size_ref div 4 < 65536"
    then have big: "65536 \<le> load32 mm size_ref div 4" by simp
    then have "(ucast i :: u32) < load32 mm size_ref div 4" by (rule ucast_u16_less)
    with step have "f src dst size_ref (i + 1) ?mm = Some r"
      by simp
    from IH [OF this] out have small: "load32 ?mm size_ref div 4 < 65536" by simp
    have "unat i < 65536" using unsigned_less [of i] by simp
    from size_object_kept [OF out this, of mm "load32 mm (src + 4 * ucast i)"]
    have "load32 ?mm size_ref = load32 mm size_ref" by simp
    with small big show False by simp
  qed
qed

lemma read_loop_diverges:
  assumes "size_object_outside size_ref dst 65536" and "65536 \<le> load32 mm size_ref div 4"
  shows "read_loop src dst size_ref i mm = None"
proof (cases "read_loop src dst size_ref i mm")
  case None
  then show ?thesis .
next
  case (Some r)
  from read_loop_small_if_Some [OF this] assms show ?thesis by simp
qed

text \<open>
  Below \<open>65536\<close>, and with the \<open>size\<close> object outside the words to copy, the counter
  reaches the bound without wrapping.
\<close>

lemma read_loop_terminates:
  "unat i + c = n \<Longrightarrow> unat (load32 mm size_ref div 4) = n \<Longrightarrow> n < 65536 \<Longrightarrow>
   size_object_outside size_ref dst n \<Longrightarrow>
   read_loop src dst size_ref i mm = Some (copy_words src dst (unat i) c mm)"
proof (induction c arbitrary: i mm)
  case 0
  then have "\<not> (ucast i :: u32) < load32 mm size_ref div 4"
    by (simp add: word_less_nat_alt unat_ucast_u16)
  then show ?case by (subst read_loop.simps) simp
next
  case (Suc c)
  let ?mm = "store32 mm (dst + 4 * ucast i) (load32 mm (src + 4 * ucast i))"
  from Suc.prems have lt: "unat i < n" by simp
  then have cond: "(ucast i :: u32) < load32 mm size_ref div 4"
    using Suc.prems(2) by (simp add: word_less_nat_alt unat_ucast_u16)
  have "unat i + 1 < 2 ^ 16" using lt Suc.prems(3) by simp
  then have next_i: "unat (i + 1) = Suc (unat i)"
    by (simp add: unat_word_ariths)
  have cast: "(of_nat (unat i) :: u32) = ucast i"
    by simp
  from size_object_kept [OF Suc.prems(4) lt, of mm "load32 mm (src + 4 * ucast i)"]
  have kept: "load32 ?mm size_ref = load32 mm size_ref" by (simp add: cast)
  have "read_loop src dst size_ref i mm = read_loop src dst size_ref (i + 1) ?mm"
    using cond by (subst read_loop.simps) simp
  also have "\<dots> = Some (copy_words src dst (unat (i + 1)) c ?mm)"
    using Suc.prems by (intro Suc.IH) (simp_all add: next_i kept)
  finally show ?case by (simp add: next_i cast)
qed


text \<open>
  With the \<open>size\<close> object out of the copy's reach and \<open>size / 4\<close> within the counter's
  range, \<open>read\<close> returns \<open>true\<close>, with one \<open>unlock\<close> before and one \<open>lock\<close> after the
  copy of \<open>size / 4\<close> words; the \<open>size % 4\<close> bytes that remain are not copied.
\<close>

lemma read_small:
  assumes "m_operations m = Some ops"
    and "load32 (mem (op_unlock ops (machine w))) size_ref = sz"
    and "sz div 4 \<le> 65535"
    and "size_object_outside size_ref dst (unat (sz div 4))"
  shows "read m address dst size_ref w =
           Some (True, m,
             call_lock ops ((call_unlock ops w)
               \<lparr>machine := (machine (call_unlock ops w))
                  \<lparr>mem := copy_words address dst 0 (unat (sz div 4))
                            (mem (machine (call_unlock ops w)))\<rparr>\<rparr>))"
proof -
  have n: "unat (sz div 4) < 65536"
    using assms(3) by (simp add: word_le_nat_alt)
  have sz: "load32 (mem (machine (call_unlock ops w))) size_ref = sz"
    using assms(2) by (simp add: call_unlock_def)
  have "read_loop address dst size_ref 0 (mem (machine (call_unlock ops w))) =
             Some (copy_words address dst (unat (0 :: u16)) (unat (sz div 4))
                     (mem (machine (call_unlock ops w))))"
    using n assms(4) by (intro read_loop_terminates) (simp_all add: sz)
  then show ?thesis using assms(1) by (simp add: read_def Let_def)
qed

lemma word_offset: "(of_nat (4 * i + j) :: u32) = 4 * of_nat i + of_nat j"
  by simp

text \<open>Bytes outside the destination words keep their value.\<close>

lemma copy_words_frame:
  "(\<forall>k. 4 * i \<le> k \<and> k < 4 * (i + c) \<longrightarrow> a \<noteq> dst + of_nat k) \<Longrightarrow>
   copy_words src dst i c mm a = mm a"
proof (induction c arbitrary: i mm)
  case 0
  show ?case by simp
next
  case (Suc c)
  let ?mm = "store32 mm (dst + 4 * of_nat i) (load32 mm (src + 4 * of_nat i))"
  have rest: "\<forall>k. 4 * Suc i \<le> k \<and> k < 4 * (Suc i + c) \<longrightarrow> a \<noteq> dst + of_nat k"
    using Suc.prems by simp
  have "\<forall>j<4. a \<noteq> dst + 4 * of_nat i + of_nat j"
  proof (intro allI impI)
    fix j :: nat assume "j < 4"
    then have "4 * i \<le> 4 * i + j \<and> 4 * i + j < 4 * (i + Suc c)" by simp
    with Suc.prems have "a \<noteq> dst + of_nat (4 * i + j)" by blast
    then show "a \<noteq> dst + 4 * of_nat i + of_nat j" by (simp add: add.assoc)
  qed
  then have "?mm a = mm a" by (rule copy_round_other)
  with Suc.IH [OF rest, of ?mm] show ?case by simp
qed

lemma offsets_inject:
  assumes "dst + of_nat k = dst + (of_nat k' :: u32)" and "k < 2 ^ 32" and "k' < 2 ^ 32"
  shows "k = k'"
proof -
  from assms(1) have "(of_nat k :: u32) = of_nat k'" by simp
  then have "unat (of_nat k :: u32) = unat (of_nat k' :: u32)" by simp
  with assms(2,3) show ?thesis by (simp add: unat_of_nat_u32)
qed

text \<open>
  When no source byte is a destination byte, every destination byte ends as the source
  byte at the same offset.
\<close>

lemma copy_words_bytes:
  assumes "4 * (i + c) \<le> 2 ^ 32"
    and "\<forall>k k'. 4 * i \<le> k \<and> k < 4 * (i + c) \<and> 4 * i \<le> k' \<and> k' < 4 * (i + c) \<longrightarrow>
           src + of_nat k \<noteq> dst + of_nat k'"
    and "4 * i \<le> k" and "k < 4 * (i + c)"
  shows "copy_words src dst i c mm (dst + of_nat k) = mm (src + of_nat k)"
  using assms
proof (induction c arbitrary: i mm)
  case 0
  then show ?case by simp
next
  case (Suc c)
  let ?mm = "store32 mm (dst + 4 * of_nat i) (load32 mm (src + 4 * of_nat i))"
  show ?case
  proof (cases "k < 4 * Suc i")
    case True
    define j where "j = k - 4 * i"
    with True Suc.prems(3) have j: "j < 4" and k: "k = 4 * i + j" by simp_all
    have "\<forall>k'. 4 * Suc i \<le> k' \<and> k' < 4 * (Suc i + c) \<longrightarrow> dst + of_nat k \<noteq> dst + of_nat k'"
    proof (intro allI impI notI)
      fix k' assume r: "4 * Suc i \<le> k' \<and> k' < 4 * (Suc i + c)"
        and e: "dst + of_nat k = dst + (of_nat k' :: u32)"
      from r Suc.prems(1) have "k' < 2 ^ 32" by simp
      moreover from True r have "k < 2 ^ 32" using Suc.prems(1) by simp
      ultimately have "k = k'" using e by (intro offsets_inject [of dst k k'])
      with True r show False by simp
    qed
    then have "copy_words src dst (Suc i) c ?mm (dst + of_nat k) = ?mm (dst + of_nat k)"
      by (rule copy_words_frame)
    also have "?mm (dst + of_nat k) = mm (src + 4 * of_nat i + of_nat j)"
      using copy_round_at [OF j, of mm "dst + 4 * of_nat i" "src + 4 * of_nat i"]
      by (simp add: k add.assoc)
    finally show ?thesis by (simp add: k add.assoc)
  next
    case False
    then have lo: "4 * Suc i \<le> k" by simp
    have hi: "k < 4 * (Suc i + c)" using Suc.prems(4) by simp
    have b: "4 * (Suc i + c) \<le> 2 ^ 32" using Suc.prems(1) by simp
    have d: "\<forall>k k'. 4 * Suc i \<le> k \<and> k < 4 * (Suc i + c) \<and> 4 * Suc i \<le> k' \<and> k' < 4 * (Suc i + c) \<longrightarrow>
           src + of_nat k \<noteq> dst + of_nat k'"
      using Suc.prems(2) by simp
    have "\<forall>j<4. src + of_nat k \<noteq> dst + 4 * of_nat i + of_nat j"
    proof (intro allI impI)
      fix j :: nat assume "j < 4"
      then have "4 * i \<le> 4 * i + j \<and> 4 * i + j < 4 * (i + Suc c)" by simp
      moreover have "4 * i \<le> k \<and> k < 4 * (i + Suc c)" using Suc.prems(3,4) by simp
      ultimately have "src + of_nat k \<noteq> dst + of_nat (4 * i + j)"
        using Suc.prems(2) by blast
      then show "src + of_nat k \<noteq> dst + 4 * of_nat i + of_nat j" by (simp add: add.assoc)
    qed
    then have "?mm (src + of_nat k) = mm (src + of_nat k)" by (rule copy_round_other)
    with Suc.IH [OF b d lo hi, of ?mm] show ?thesis by simp
  qed
qed



text \<open>
  What \<open>read\<close> does for a size that fits the counter, when the \<open>size\<close> object lies
  outside the destination and no source byte is a destination byte: it returns \<open>true\<close>,
  calls \<open>unlock\<close> once before and \<open>lock\<close> once after, and between the two exactly the
  \<open>4 * (size / 4)\<close> bytes from \<open>dst\<close> on take the values of the bytes from \<open>address\<close>
  on. The last \<open>size % 4\<close> bytes are not copied, and \<open>size\<close> is checked against nothing.
\<close>

lemma read_small_copies:
  assumes "m_operations m = Some ops"
    and "load32 (mem (op_unlock ops (machine w))) size_ref = sz"
    and "sz div 4 \<le> 65535"
    and "size_object_outside size_ref dst (unat (sz div 4))"
    and "\<forall>k k'. k < 4 * unat (sz div 4) \<and> k' < 4 * unat (sz div 4) \<longrightarrow>
           address + of_nat k \<noteq> dst + of_nat k'"
  shows "\<exists>mm' w'. read m address dst size_ref w = Some (True, m, w') \<and>
           trace w' = trace w @ [EvUnlock, EvLock] \<and>
           machine w' = op_lock ops ((op_unlock ops (machine w))\<lparr>mem := mm'\<rparr>) \<and>
           (\<forall>k < 4 * unat (sz div 4).
              mm' (dst + of_nat k) = mem (op_unlock ops (machine w)) (address + of_nat k)) \<and>
           (\<forall>a. (\<forall>k < 4 * unat (sz div 4). a \<noteq> dst + of_nat k) \<longrightarrow>
              mm' a = mem (op_unlock ops (machine w)) a)"
proof -
  let ?n = "unat (sz div 4)"
  let ?mm = "mem (op_unlock ops (machine w))"
  let ?mm' = "copy_words address dst 0 ?n ?mm"
  have n: "?n < 65536"
    using assms(3) by (simp add: word_le_nat_alt)
  then have nowrap: "4 * (0 + ?n) \<le> (2 :: nat) ^ 32" by simp
  have disjoint: "\<forall>k k'. 4 * 0 \<le> k \<and> k < 4 * (0 + ?n) \<and> 4 * 0 \<le> k' \<and> k' < 4 * (0 + ?n) \<longrightarrow>
           address + of_nat k \<noteq> dst + of_nat k'"
    using assms(5) by simp
  have bytes: "\<forall>k < 4 * ?n. ?mm' (dst + of_nat k) = ?mm (address + of_nat k)"
  proof (intro allI impI)
    fix k assume "k < 4 * ?n"
    then show "?mm' (dst + of_nat k) = ?mm (address + of_nat k)"
      by (intro copy_words_bytes [OF nowrap disjoint]) simp_all
  qed
  have frame: "\<forall>a. (\<forall>k < 4 * ?n. a \<noteq> dst + of_nat k) \<longrightarrow> ?mm' a = ?mm a"
  proof (intro allI impI)
    fix a assume "\<forall>k < 4 * ?n. a \<noteq> dst + of_nat k"
    then show "?mm' a = ?mm a"
      by (intro copy_words_frame) simp
  qed
  have "read m address dst size_ref w =
          Some (True, m, call_lock ops ((call_unlock ops w)
               \<lparr>machine := (machine (call_unlock ops w))\<lparr>mem := ?mm'\<rparr>\<rparr>))"
    using read_small [OF assms(1-4), of address] by (simp add: call_unlock_def)
  with bytes frame show ?thesis
    by (intro exI [of _ ?mm']) (simp add: call_lock_def call_unlock_def)
qed

lemma read_large:
  assumes "m_operations m = Some ops"
    and "load32 (mem (op_unlock ops (machine w))) size_ref = sz"
    and "65536 \<le> sz div 4"
    and "size_object_outside size_ref dst 65536"
  shows "read m address dst size_ref w = None"
proof -
  have "read_loop address dst size_ref 0 (mem (machine (call_unlock ops w))) = None"
    using assms(2-4) by (intro read_loop_diverges) (simp_all add: call_unlock_def)
  then show ?thesis using assms(1) by (simp add: read_def Let_def)
qed

lemma size_threshold: "(65536 \<le> (sz :: u32) div 4) = (262144 \<le> sz)"
  by (simp add: word_le_nat_alt unat_div) arith

lemma load32_size_memories:
  "load32 large_size_memory 0x20040000 = 262144"
  "load32 small_size_memory 0x20040000 = 10"
  "load32 alias_memory 0x20000008 = 16"
  by (simp_all add: load32_def large_size_memory_def small_size_memory_def alias_memory_def
        place_def)

lemma size_object_behind_262144: "size_object_outside 0x20040000 0x20000000 65536"
  by (rule size_object_behind) simp_all

lemma load32_store32_apart:
  assumes "unat a + 4 \<le> unat p \<or> unat p + 4 \<le> unat a"
    and "unat a + 4 \<le> 2 ^ 32" and "unat p + 4 \<le> 2 ^ 32"
  shows "load32 (store32 mm a v) p = load32 mm p"
proof (rule load32_store32_other, intro allI impI notI)
  fix j j' :: nat
  assume j: "j < 4" and j': "j' < 4" and e: "p + of_nat j = a + (of_nat j' :: u32)"
  have jj: "unat (of_nat j :: u32) = j" "unat (of_nat j' :: u32) = j'"
    using j j' by (simp_all add: unat_of_nat_u32)
  have "unat (p + of_nat j) = unat p + j"
    using j assms(3) by (simp add: unat_word_ariths jj)
  moreover have "unat (a + of_nat j') = unat a + j'"
    using j' assms(2) by (simp add: unat_word_ariths jj)
  ultimately show False using e j j' assms(1) by auto
qed

lemma load32_store32_same: "load32 (store32 mm a v) a = v"
proof (rule bit_word_eqI)
  fix n assume "n < LENGTH(32)"
  then have n: "n < 32" by simp
  consider "n < 8" | "8 \<le> n" "n < 16" | "16 \<le> n" "n < 24" | "24 \<le> n" "n < 32"
    using n by linarith
  then show "bit (load32 (store32 mm a v) a) n = bit v n"
    by cases (auto simp: load32_def store32_at bit_simps)
qed

text \<open>
  When the \<open>size\<close> object lies inside the destination, the copy changes the bound: the
  object holds 16 at the start, the third round stores 12 over it, and the loop ends after
  three words, not four.
\<close>

lemma read_loop_size_overwritten:
  "read_loop 0x08006000 0x20000000 0x20000008 0 alias_memory =
     Some (copy_words 0x08006000 0x20000000 0 3 alias_memory)"
proof -
  let ?src = "0x08006000 :: u32" and ?dst = "0x20000000 :: u32" and ?size = "0x20000008 :: u32"
  let ?m0 = alias_memory
  let ?m1 = "store32 ?m0 ?dst (load32 ?m0 ?src)"
  let ?m2 = "store32 ?m1 (?dst + 4) (load32 ?m1 (?src + 4))"
  let ?m3 = "store32 ?m2 (?dst + 8) (load32 ?m2 (?src + 8))"
  have w2: "load32 ?m0 (?src + 8) = 12"
    by (simp add: load32_def alias_memory_def place_def)
  have s0: "load32 ?m0 ?size = 16"
    by (rule load32_size_memories)
  have s1: "load32 ?m1 ?size = 16"
    using s0 by (subst load32_store32_apart) simp_all
  have s2: "load32 ?m2 ?size = 16"
    using s1 by (subst load32_store32_apart) simp_all
  have "load32 ?m2 (?src + 8) = load32 ?m1 (?src + 8)"
    by (subst load32_store32_apart) simp_all
  also have "\<dots> = load32 ?m0 (?src + 8)"
    by (subst load32_store32_apart) simp_all
  finally have v2: "load32 ?m2 (?src + 8) = 12"
    using w2 by simp
  have s3: "load32 ?m3 ?size = 12"
    using v2 by (simp add: load32_store32_same)
  have "read_loop ?src ?dst ?size 0 ?m0 = read_loop ?src ?dst ?size 1 ?m1"
    using s0 by (subst read_loop.simps) simp
  also have "\<dots> = read_loop ?src ?dst ?size 2 ?m2"
    using s1 by (subst read_loop.simps) simp
  also have "\<dots> = read_loop ?src ?dst ?size 3 ?m3"
    using s2 by (subst read_loop.simps) simp
  also have "\<dots> = Some ?m3"
    using s3 by (subst read_loop.simps) simp
  also have "?m3 = copy_words ?src ?dst 0 3 ?m0"
    by (simp add: eval_nat_numeral)
  finally show ?thesis .
qed


text \<open>
  The same at the level of \<open>read\<close>: called with a \<open>size\<close> of 16, it returns \<open>true\<close>
  after copying 12 bytes.
\<close>

lemma read_size_overwritten:
  "read (STM32BootManager_ctor (Some scripted_ops)) 0x08006000 0x20000000 0x20000008
     (scripted_world [] alias_memory) =
   Some (True, STM32BootManager_ctor (Some scripted_ops),
     (scripted_world [] (copy_words 0x08006000 0x20000000 0 3 alias_memory))
       \<lparr>trace := [EvUnlock, EvLock]\<rparr>)"
  by (simp add: read_def Let_def call_unlock_def call_lock_def STM32BootManager_ctor_def
        scripted_ops_def scripted_world_def boot_world_def read_loop_size_overwritten)


text \<open>
  C10. With a capability bound, and the caller's \<open>size\<close> object out of reach of the words
  the copy stores, \<open>read\<close> never returns when \<open>size / 4\<close> is at least \<open>65536\<close>, that is
  when \<open>size\<close> is at least \<open>262144\<close>: the 16-bit counter wraps and stays below the bound.
  It returns for every \<open>size\<close> with \<open>size / 4\<close> at most \<open>65535\<close>. Here \<open>sz\<close> is the value
  of \<open>size\<close> when the loop starts, and the words the copy stores are the first
  \<open>size / 4\<close> from \<open>dst\<close> on, or the first \<open>65536\<close> once the counter wraps.
\<close>

theorem read_terminates_only_for_small_sizes:
  assumes "m_operations m = Some ops"
    and "load32 (mem (op_unlock ops (machine w))) size_ref = sz"
    and "size_object_outside size_ref dst (min (unat (sz div 4)) 65536)"
  shows "(65536 \<le> sz div 4 \<longrightarrow> read m address dst size_ref w = None) \<and>
         (sz div 4 \<le> 65535 \<longrightarrow> (\<exists>r. read m address dst size_ref w = Some r)) \<and>
         (65536 \<le> sz div 4 \<longleftrightarrow> 262144 \<le> sz)"
proof (intro conjI impI)
  assume big: "65536 \<le> sz div 4"
  then have "min (unat (sz div 4)) 65536 = 65536"
    by (simp add: word_le_nat_alt)
  with assms(3) have "size_object_outside size_ref dst 65536" by simp
  with assms(1,2) big show "read m address dst size_ref w = None"
    by (intro read_large)
next
  assume small: "sz div 4 \<le> 65535"
  then have "min (unat (sz div 4)) 65536 = unat (sz div 4)"
    by (simp add: word_le_nat_alt)
  with assms(3) have "size_object_outside size_ref dst (unat (sz div 4))" by simp
  with assms(1,2) small show "\<exists>r. read m address dst size_ref w = Some r"
    by (intro exI) (rule read_small)
next
  show "(65536 \<le> sz div 4) = (262144 \<le> sz)" by (rule size_threshold)
qed

theorem read_terminates_only_for_small_sizes_witness:
  "read (STM32BootManager_ctor (Some scripted_ops)) 0x08006000 0x20000000 0x20040000
     (scripted_world [] large_size_memory) = None \<and>
   (\<exists>r. read (STM32BootManager_ctor (Some scripted_ops)) 0x08006000 0x20000000 0x20040000
     (scripted_world [] small_size_memory) = Some r)"
proof -
  let ?m = "STM32BootManager_ctor (Some scripted_ops)"
  have b: "m_operations ?m = Some scripted_ops"
    by (simp add: STM32BootManager_ctor_def)
  have l: "load32 (mem (op_unlock scripted_ops (machine (scripted_world [] large_size_memory))))
             0x20040000 = 262144"
    and s: "load32 (mem (op_unlock scripted_ops (machine (scripted_world [] small_size_memory))))
             0x20040000 = 10"
    by (simp_all add: scripted_ops_def scripted_world_def boot_world_def load32_size_memories)
  have ol: "size_object_outside 0x20040000 0x20000000 (min (unat ((262144 :: u32) div 4)) 65536)"
    using size_object_behind_262144 by simp
  have os: "size_object_outside 0x20040000 0x20000000 (min (unat ((10 :: u32) div 4)) 65536)"
    by (rule size_object_behind) simp_all
  from read_terminates_only_for_small_sizes [OF b l ol, of "0x08006000"]
  have "read ?m 0x08006000 0x20000000 0x20040000 (scripted_world [] large_size_memory) = None"
    by simp
  moreover from read_terminates_only_for_small_sizes [OF b s os, of "0x08006000"]
  have "\<exists>r. read ?m 0x08006000 0x20000000 0x20040000 (scripted_world [] small_size_memory) = Some r"
    by simp
  ultimately show ?thesis by simp
qed

text \<open>
  C9. \<open>read\<close> does not check \<open>size\<close>; it returns \<open>true\<close> after copying
  \<open>4 * (size / 4)\<close> bytes between one \<open>unlock\<close> and one \<open>lock\<close> as long as \<open>size / 4\<close>
  fits the 16-bit counter (lemma \<open>read_small_copies\<close>). It does not for larger sizes: at
  \<open>size = 262144\<close>, with any capability bound, from any source and to any destination
  that does not cover the caller's \<open>size\<close> object, the call does not return. \<open>unlock\<close> is
  called, the copy never ends, \<open>lock\<close> is never reached.
\<close>

theorem read_never_returns_at_262144:
  assumes "load32 (mem (op_unlock ops (machine w))) size_ref = 262144"
    and "size_object_outside size_ref dst 65536"
  shows "read (STM32BootManager_ctor (Some ops)) address dst size_ref w = None"
proof -
  have "m_operations (STM32BootManager_ctor (Some ops)) = Some ops"
    by (simp add: STM32BootManager_ctor_def)
  moreover have "(65536 :: u32) \<le> 262144 div 4" by simp
  ultimately show ?thesis
    using assms by (intro read_large [where sz = 262144]) simp_all
qed

theorem read_never_returns_at_262144_witness:
  "read (STM32BootManager_ctor (Some scripted_ops)) 0x08006000 0x20000000 0x20040000
     (scripted_world [] large_size_memory) = None"
proof (rule read_never_returns_at_262144)
  show "load32 (mem (op_unlock scripted_ops (machine (scripted_world [] large_size_memory))))
          0x20040000 = 262144"
    by (simp add: scripted_ops_def scripted_world_def boot_world_def load32_size_memories)
  show "size_object_outside 0x20040000 0x20000000 65536"
    by (rule size_object_behind_262144)
qed


section \<open>The jump\<close>

lemmas double_defs =
  STM32BootManager_ctor_def scripted_ops_def scripted_def scripted_world_def boot_world_def

text \<open>
  C7. With a capability bound, \<open>jump_to_app\<close> calls \<open>deinit_peripherals\<close> once, then
  reads the 32-bit word at \<open>start + 4\<close> from the memory as that call left it, then calls
  \<open>deinit_systick\<close> once, then transfers control to the address it read. The result is
  always a jump, never a return, whatever the word is: there is no check and no error path.
\<close>

theorem jump_to_app_sequence:
  assumes "m_operations m = Some ops"
  shows "let h1 = op_deinit_peripherals ops (machine w);
             entry = load32 (mem h1) (START_ADDRESS + 4);
             h2 = op_deinit_systick ops h1
         in jump_to_app m w =
              Jumped entry m
                (w\<lparr>machine := h2,
                   trace := trace w @ [EvDeinitPeripherals, EvDeinitSystick, EvJump entry]\<rparr>)"
  using assms
  by (simp add: jump_to_app_def Let_def call_deinit_peripherals_def call_deinit_systick_def)

lemma load32_vector: "load32 vector_memory (START_ADDRESS + 4) = 0x080060C1"
  by (simp add: load32_def vector_memory_def START_ADDRESS_def)

theorem jump_to_app_sequence_witness:
  "jump_to_app (STM32BootManager_ctor (Some scripted_ops)) (scripted_world [] vector_memory) =
     Jumped 0x080060C1 (STM32BootManager_ctor (Some scripted_ops))
       ((scripted_world [] vector_memory)
          \<lparr>trace := [EvDeinitPeripherals, EvDeinitSystick, EvJump 0x080060C1]\<rparr>)"
proof -
  have b: "m_operations (STM32BootManager_ctor (Some scripted_ops)) = Some scripted_ops"
    by (simp add: STM32BootManager_ctor_def)
  show ?thesis
    using jump_to_app_sequence [OF b, of "scripted_world [] vector_memory"]
    by (simp add: Let_def scripted_ops_def scripted_world_def boot_world_def load32_vector)
qed


section \<open>Erase before write\<close>

lemmas call_defs = call_erase_app_def call_write_def call_unlock_def call_lock_def

lemma write_mgr_cases:
  assumes "m_operations m = Some ops" and "write_mgr m a d s w = (ret, m', w')"
  shows
   "(\<not> m_was_erased m \<and> \<not> fst (op_erase_app ops (op_unlock ops (machine w))) \<longrightarrow>
        \<not> ret \<and> m' = m \<and> trace w' = trace w @ [EvUnlock, EvEraseApp False, EvLock]) \<and>
    (\<not> m_was_erased m \<and> fst (op_erase_app ops (op_unlock ops (machine w))) \<longrightarrow>
        m' = m\<lparr>m_was_erased := True\<rparr> \<and>
        trace w' = trace w @
          [EvUnlock, EvEraseApp True, EvLock, EvUnlock, EvWrite a d s ret, EvLock] \<and>
        ret = fst (op_write ops a d s (op_unlock ops (op_lock ops
                (snd (op_erase_app ops (op_unlock ops (machine w)))))))) \<and>
    (m_was_erased m \<longrightarrow>
        m' = m \<and> trace w' = trace w @ [EvUnlock, EvWrite a d s ret, EvLock] \<and>
        ret = fst (op_write ops a d s (op_unlock ops (machine w))))"
  using assms
  by (auto simp: write_mgr_def erase_if_needed_def erase_app_def call_defs
        split: prod.splits if_splits)

lemma write_continously_cases:
  assumes "m_operations m = Some ops" and "write_continously m d s w = (ret, m', w')"
  shows
   "(\<not> m_was_erased m \<and> \<not> fst (op_erase_app ops (op_unlock ops (machine w))) \<longrightarrow>
        \<not> ret \<and> m' = m \<and> trace w' = trace w @ [EvUnlock, EvEraseApp False, EvLock]) \<and>
    (\<not> m_was_erased m \<and> fst (op_erase_app ops (op_unlock ops (machine w))) \<longrightarrow>
        m' = m\<lparr>m_was_erased := True,
               m_write_pointer := (if ret then m_write_pointer m + s else m_write_pointer m)\<rparr> \<and>
        trace w' = trace w @
          [EvUnlock, EvEraseApp True, EvLock, EvUnlock, EvWrite (m_write_pointer m) d s ret, EvLock] \<and>
        ret = fst (op_write ops (m_write_pointer m) d s (op_unlock ops (op_lock ops
                (snd (op_erase_app ops (op_unlock ops (machine w)))))))) \<and>
    (m_was_erased m \<longrightarrow>
        m' = m\<lparr>m_write_pointer := (if ret then m_write_pointer m + s else m_write_pointer m)\<rparr> \<and>
        trace w' = trace w @ [EvUnlock, EvWrite (m_write_pointer m) d s ret, EvLock] \<and>
        ret = fst (op_write ops (m_write_pointer m) d s (op_unlock ops (machine w))))"
  using assms
  by (auto simp: write_continously_def write_mgr_def erase_if_needed_def erase_app_def call_defs
        split: prod.splits if_splits)


lemma do_call_cases:
  assumes "m_operations m = Some ops" and "do_call m w c = (ret, m', w')"
    and "call_args m c = (a, d, s)"
  shows
   "(\<not> m_was_erased m \<and> \<not> fst (op_erase_app ops (op_unlock ops (machine w))) \<longrightarrow>
        \<not> ret \<and> m' = m \<and> trace w' = trace w @ [EvUnlock, EvEraseApp False, EvLock]) \<and>
    (\<not> m_was_erased m \<and> fst (op_erase_app ops (op_unlock ops (machine w))) \<longrightarrow>
        m_was_erased m' \<and>
        trace w' = trace w @
          [EvUnlock, EvEraseApp True, EvLock, EvUnlock, EvWrite a d s ret, EvLock] \<and>
        ret = fst (op_write ops a d s (op_unlock ops (op_lock ops
                (snd (op_erase_app ops (op_unlock ops (machine w)))))))) \<and>
    (m_was_erased m \<longrightarrow>
        m_was_erased m' \<and> trace w' = trace w @ [EvUnlock, EvWrite a d s ret, EvLock] \<and>
        ret = fst (op_write ops a d s (op_unlock ops (machine w)))) \<and>
    m_operations m' = Some ops"
proof (cases c)
  case (Write start data sz)
  with assms have "write_mgr m a d s w = (ret, m', w')" by simp
  from write_mgr_cases [OF assms(1) this] assms(1) show ?thesis by auto
next
  case (WriteContinously buffer sz)
  with assms have "write_continously m d s w = (ret, m', w')" and "a = m_write_pointer m"
    by simp_all
  with write_continously_cases [OF assms(1), of d s w ret m' w'] assms(1) show ?thesis by auto
qed

lemma unerased_call_starts_with_erase:
  assumes "m_operations m = Some ops" and "\<not> m_was_erased m"
  shows "\<exists>ok rest. trace (snd (snd (do_call m w c))) =
           trace w @ [EvUnlock, EvEraseApp ok, EvLock] @ rest"
proof -
  obtain ret m' w' where r: "do_call m w c = (ret, m', w')"
    by (cases "do_call m w c") auto
  obtain a d s where args: "call_args m c = (a, d, s)"
    by (cases "call_args m c") auto
  note cs = do_call_cases [OF assms(1) r args]
  show ?thesis
  proof (cases "fst (op_erase_app ops (op_unlock ops (machine w)))")
    case True
    with cs assms(2) have "trace w' = trace w @ [EvUnlock, EvEraseApp True, EvLock] @
        [EvUnlock, EvWrite a d s ret, EvLock]" by simp
    with r show ?thesis by (intro exI [of _ True] exI [of _ "[EvUnlock, EvWrite a d s ret, EvLock]"]) simp
  next
    case False
    with cs assms(2) have "trace w' = trace w @ [EvUnlock, EvEraseApp False, EvLock] @ []" by simp
    with r show ?thesis by (intro exI [of _ False] exI [of _ "[]"]) simp
  qed
qed

text \<open>
  C1. For a manager with a capability bound, and a call \<open>c\<close> of \<open>write\<close> or
  \<open>write_continously\<close> that hands the arguments \<open>a\<close>, \<open>d\<close>, \<open>s\<close> to the capability:
  \<^item> while the erase flag is false (as in a fresh manager) the call first erases, between
    \<open>unlock\<close> and \<open>lock\<close>, before any programming;
  \<^item> if that erase fails, the call returns \<open>false\<close>, the capability's \<open>write\<close> is not
    called, the flag stays false, and the next call \<open>c'\<close> starts with an erase again;
  \<^item> if it succeeds, the flag becomes true and the call goes on to the capability's
    \<open>write\<close>, whose status it returns;
  \<^item> once the flag is true, a call does not erase, calls the capability's \<open>write\<close>
    between \<open>unlock\<close> and \<open>lock\<close>, returns its status, and leaves the flag true.
\<close>

theorem erase_before_write_with_retry:
  assumes "m_operations m = Some ops" and "do_call m w c = (ret, m', w')"
    and "call_args m c = (a, d, s)"
  shows
   "(\<not> m_was_erased m \<and> \<not> fst (op_erase_app ops (op_unlock ops (machine w))) \<longrightarrow>
        \<not> ret \<and> \<not> m_was_erased m' \<and>
        trace w' = trace w @ [EvUnlock, EvEraseApp False, EvLock] \<and>
        (\<exists>ok rest. trace (snd (snd (do_call m' w' c'))) =
           trace w' @ [EvUnlock, EvEraseApp ok, EvLock] @ rest)) \<and>
    (\<not> m_was_erased m \<and> fst (op_erase_app ops (op_unlock ops (machine w))) \<longrightarrow>
        m_was_erased m' \<and>
        trace w' = trace w @
          [EvUnlock, EvEraseApp True, EvLock, EvUnlock, EvWrite a d s ret, EvLock] \<and>
        ret = fst (op_write ops a d s (op_unlock ops (op_lock ops
                (snd (op_erase_app ops (op_unlock ops (machine w)))))))) \<and>
    (m_was_erased m \<longrightarrow>
        m_was_erased m' \<and> trace w' = trace w @ [EvUnlock, EvWrite a d s ret, EvLock] \<and>
        ret = fst (op_write ops a d s (op_unlock ops (machine w)))) \<and>
    m_operations m' = Some ops"
proof -
  note cs = do_call_cases [OF assms]
  have retry: "\<exists>ok rest. trace (snd (snd (do_call m' w' c'))) =
           trace w' @ [EvUnlock, EvEraseApp ok, EvLock] @ rest"
    if "\<not> m_was_erased m" and "\<not> fst (op_erase_app ops (op_unlock ops (machine w)))"
  proof -
    from cs that have "m' = m" by simp
    with assms(1) that(1) show ?thesis
      by (intro unerased_call_starts_with_erase) simp_all
  qed
  from cs retry show ?thesis by simp
qed


theorem erase_before_write_with_retry_witness:
  "\<not> fst (do_call (STM32BootManager_ctor (Some scripted_ops)) (scripted_world [False] (\<lambda>a. 0))
            (Write 0x08006000 0x20000000 8)) \<and>
   trace (snd (snd (do_call (STM32BootManager_ctor (Some scripted_ops))
            (scripted_world [False] (\<lambda>a. 0)) (Write 0x08006000 0x20000000 8)))) =
     [EvUnlock, EvEraseApp False, EvLock] \<and>
   trace (snd (snd (do_call (STM32BootManager_ctor (Some scripted_ops))
            (scripted_world [True, False] (\<lambda>a. 0)) (WriteContinously 0x20000000 8)))) =
     [EvUnlock, EvEraseApp True, EvLock,
      EvUnlock, EvWrite 0x08006000 0x20000000 8 False, EvLock] \<and>
   trace (snd (snd (do_call ((STM32BootManager_ctor (Some scripted_ops))\<lparr>m_was_erased := True\<rparr>)
            (scripted_world [True] (\<lambda>a. 0)) (Write 0x08006000 0x20000000 8)))) =
     [EvUnlock, EvWrite 0x08006000 0x20000000 8 True, EvLock]"
proof -
  let ?m = "STM32BootManager_ctor (Some scripted_ops)"
  let ?c = "Write 0x08006000 0x20000000 8"
  let ?k = "WriteContinously 0x20000000 8"
  let ?w1 = "scripted_world [False] (\<lambda>a. 0)"
  let ?w2 = "scripted_world [True, False] (\<lambda>a. 0)"
  let ?w3 = "scripted_world [True] (\<lambda>a. 0)"
  have b: "m_operations ?m = Some scripted_ops"
    and b': "m_operations (?m\<lparr>m_was_erased := True\<rparr>) = Some scripted_ops"
    by (simp_all add: STM32BootManager_ctor_def)
  have r1: "do_call ?m ?w1 ?c =
      (fst (do_call ?m ?w1 ?c), fst (snd (do_call ?m ?w1 ?c)), snd (snd (do_call ?m ?w1 ?c)))"
    and r2: "do_call ?m ?w2 ?k =
      (fst (do_call ?m ?w2 ?k), fst (snd (do_call ?m ?w2 ?k)), snd (snd (do_call ?m ?w2 ?k)))"
    and r3: "do_call (?m\<lparr>m_was_erased := True\<rparr>) ?w3 ?c =
      (fst (do_call (?m\<lparr>m_was_erased := True\<rparr>) ?w3 ?c),
       fst (snd (do_call (?m\<lparr>m_was_erased := True\<rparr>) ?w3 ?c)),
       snd (snd (do_call (?m\<lparr>m_was_erased := True\<rparr>) ?w3 ?c)))"
    by simp_all
  have a1: "call_args ?m ?c = (0x08006000, 0x20000000, 8)"
    and a2: "call_args ?m ?k = (0x08006000, 0x20000000, 8)"
    and a3: "call_args (?m\<lparr>m_was_erased := True\<rparr>) ?c = (0x08006000, 0x20000000, 8)"
    by (simp_all add: STM32BootManager_ctor_def START_ADDRESS_def)
  have s1: "\<not> m_was_erased ?m \<and> \<not> fst (op_erase_app scripted_ops (op_unlock scripted_ops (machine ?w1)))"
    and s2: "\<not> m_was_erased ?m \<and> fst (op_erase_app scripted_ops (op_unlock scripted_ops (machine ?w2)))"
    and s3: "m_was_erased (?m\<lparr>m_was_erased := True\<rparr>)"
    by (simp_all add: double_defs)
  have f2: "fst (op_write scripted_ops 0x08006000 0x20000000 8 (op_unlock scripted_ops (op_lock scripted_ops
                (snd (op_erase_app scripted_ops (op_unlock scripted_ops (machine ?w2))))))) = False"
    and f3: "fst (op_write scripted_ops 0x08006000 0x20000000 8 (op_unlock scripted_ops (machine ?w3))) = True"
    and t: "trace ?w1 = []" "trace ?w2 = []" "trace ?w3 = []"
    by (simp_all add: double_defs)
  from erase_before_write_with_retry [OF b r1 a1] s1 t(1)
  have "\<not> fst (do_call ?m ?w1 ?c) \<and>
        trace (snd (snd (do_call ?m ?w1 ?c))) = [EvUnlock, EvEraseApp False, EvLock]"
    by simp
  moreover from erase_before_write_with_retry [OF b r2 a2] s2 t(2) f2
  have "trace (snd (snd (do_call ?m ?w2 ?k))) =
     [EvUnlock, EvEraseApp True, EvLock, EvUnlock, EvWrite 0x08006000 0x20000000 8 False, EvLock]"
    by simp
  moreover from erase_before_write_with_retry [OF b' r3 a3] s3 t(3) f3
  have "trace (snd (snd (do_call (?m\<lparr>m_was_erased := True\<rparr>) ?w3 ?c))) =
     [EvUnlock, EvWrite 0x08006000 0x20000000 8 True, EvLock]"
    by simp
  ultimately show ?thesis by simp
qed


section \<open>How often the erase runs\<close>

lemma erase_state_append:
  "erase_state b (xs @ ys) = erase_state (erase_state b xs) ys"
  by (induction b xs rule: erase_state.induct) simp_all

lemma erase_discipline_append:
  "erase_discipline b (xs @ ys) \<longleftrightarrow>
     erase_discipline b xs \<and> erase_discipline (erase_state b xs) ys"
  by (induction b xs rule: erase_discipline.induct) simp_all

lemma erase_results_append: "erase_results (xs @ ys) = erase_results xs @ erase_results ys"
  by (induction xs rule: erase_results.induct) simp_all

lemma write_addrs_append: "write_addrs (xs @ ys) = write_addrs xs @ write_addrs ys"
  by (induction xs rule: write_addrs.induct) simp_all

lemma successes_bounded:
  "erase_discipline b evs \<Longrightarrow>
   length (filter id (erase_results evs)) \<le> (if b then 0 else 1)"
  by (induction b evs rule: erase_discipline.induct) (auto split: if_splits)

lemma attempts_bounded_without_failure:
  "erase_discipline b evs \<Longrightarrow> False \<notin> set (erase_results evs) \<Longrightarrow>
   length (erase_results evs) \<le> (if b then 0 else 1)"
  by (induction b evs rule: erase_discipline.induct) (auto split: if_splits)

lemma events_since_append: "trace w' = trace w @ evs \<Longrightarrow> events_since w w' = evs"
  by (simp add: events_since_def)

lemma do_call_unbound:
  "m_operations m = None \<Longrightarrow> do_call m w c = (False, m, w)"
  by (cases c) (simp_all add: write_mgr_def write_continously_def erase_if_needed_def erase_app_def)

lemma do_call_events:
  assumes "do_call m w c = (ret, m', w')"
  shows "\<exists>evs. trace w' = trace w @ evs \<and> erase_discipline (m_was_erased m) evs \<and>
           erase_state (m_was_erased m) evs = m_was_erased m' \<and>
           length (erase_results evs) \<le> 1 \<and> m_operations m' = m_operations m"
proof (cases "m_operations m")
  case None
  with assms have "m' = m" "w' = w" by (simp_all add: do_call_unbound)
  then show ?thesis by (intro exI [of _ "[]"]) simp
next
  case (Some ops)
  obtain a d s where args: "call_args m c = (a, d, s)"
    by (cases "call_args m c") auto
  note cs = do_call_cases [OF Some assms args]
  consider (failed) "\<not> m_was_erased m" "\<not> fst (op_erase_app ops (op_unlock ops (machine w)))"
    | (fresh) "\<not> m_was_erased m" "fst (op_erase_app ops (op_unlock ops (machine w)))"
    | (erased) "m_was_erased m"
    by blast
  then show ?thesis
  proof cases
    case failed
    with cs Some show ?thesis
      by (intro exI [of _ "[EvUnlock, EvEraseApp False, EvLock]"]) simp
  next
    case fresh
    with cs Some show ?thesis
      by (intro exI [of _ "[EvUnlock, EvEraseApp True, EvLock,
                            EvUnlock, EvWrite a d s ret, EvLock]"]) simp
  next
    case erased
    with cs Some show ?thesis
      by (intro exI [of _ "[EvUnlock, EvWrite a d s ret, EvLock]"]) simp
  qed
qed

lemma run_calls_events:
  "run_calls m w cs = (rs, m', w') \<Longrightarrow>
   \<exists>evs. trace w' = trace w @ evs \<and> erase_discipline (m_was_erased m) evs \<and>
         erase_state (m_was_erased m) evs = m_was_erased m' \<and>
         length (erase_results evs) \<le> length cs \<and> length rs = length cs"
proof (induction cs arbitrary: m w rs m' w')
  case Nil
  then show ?case by (intro exI [of _ "[]"]) simp
next
  case (Cons c cs)
  obtain r m1 w1 where step: "do_call m w c = (r, m1, w1)"
    by (cases "do_call m w c") auto
  obtain rs1 where rest: "run_calls m1 w1 cs = (rs1, m', w')" and rs: "rs = r # rs1"
    using Cons.prems step by (auto split: prod.splits)
  from do_call_events [OF step] obtain e1 where
    e1: "trace w1 = trace w @ e1" "erase_discipline (m_was_erased m) e1"
        "erase_state (m_was_erased m) e1 = m_was_erased m1" "length (erase_results e1) \<le> 1"
    by blast
  from Cons.IH [OF rest] obtain e2 where
    e2: "trace w' = trace w1 @ e2" "erase_discipline (m_was_erased m1) e2"
        "erase_state (m_was_erased m1) e2 = m_was_erased m'"
        "length (erase_results e2) \<le> length cs" "length rs1 = length cs"
    by blast
  show ?case
    using e1 e2 rs
    by (intro exI [of _ "e1 @ e2"])
       (simp add: erase_discipline_append erase_state_append erase_results_append)
qed

text \<open>
  C8, as the code has it. For a fresh manager and any sequence of \<open>write\<close> and
  \<open>write_continously\<close> calls: an erase is started only while no erase has succeeded, at
  most once per call, so a failed erase is tried again by the next call; the capability's
  \<open>write\<close> is called only after an erase has succeeded; at most one erase succeeds, and
  after it \<open>erase_app\<close> is never called again, however many calls follow. When no erase
  fails, \<open>erase_app\<close> is called at most once.
\<close>

theorem erase_retried_until_success_then_never:
  assumes "run_calls (STM32BootManager_ctor operations) w cs = (rs, m', w')"
  shows "trace w' = trace w @ events_since w w' \<and>
         erase_discipline False (events_since w w') \<and>
         length (filter id (erase_results (events_since w w'))) \<le> 1 \<and>
         length (erase_results (events_since w w')) \<le> length cs \<and>
         (False \<notin> set (erase_results (events_since w w')) \<longrightarrow>
            length (erase_results (events_since w w')) \<le> 1)"
proof -
  from run_calls_events [OF assms] obtain evs where
    evs: "trace w' = trace w @ evs" "erase_discipline False evs"
         "length (erase_results evs) \<le> length cs"
    by (auto simp: STM32BootManager_ctor_def)
  have since: "events_since w w' = evs"
    using evs(1) by (rule events_since_append)
  from successes_bounded [OF evs(2)] have "length (filter id (erase_results evs)) \<le> 1"
    by simp
  moreover have "length (erase_results evs) \<le> 1" if "False \<notin> set (erase_results evs)"
    using attempts_bounded_without_failure [OF evs(2) that] by simp
  ultimately show ?thesis using evs since by simp
qed


lemmas run_defs =
  write_mgr_def write_continously_def erase_if_needed_def erase_app_def call_defs events_since_def

text \<open>
  Two \<open>write\<close> calls on a fresh manager whose first erase fails: \<open>erase_app\<close> runs in
  both, before any write has succeeded.
\<close>

lemma two_writes_two_erases:
  "erase_results (events_since (scripted_world [False, True] (\<lambda>a. 0))
     (snd (snd (run_calls (STM32BootManager_ctor (Some scripted_ops))
        (scripted_world [False, True] (\<lambda>a. 0))
        [Write 0x08006000 0x20000000 8, Write 0x08006000 0x20000000 8])))) = [False, True]"
  by (simp add: run_defs double_defs)

text \<open>
  C8, as stated, counts the calls of \<open>erase_app\<close>, failed ones included, and bounds them
  by one. The run above has two.
\<close>

theorem erase_at_most_once_counterexample:
  "\<not> length (erase_results (events_since (scripted_world [False, True] (\<lambda>a. 0))
     (snd (snd (run_calls (STM32BootManager_ctor (Some scripted_ops))
        (scripted_world [False, True] (\<lambda>a. 0))
        [Write 0x08006000 0x20000000 8, Write 0x08006000 0x20000000 8]))))) \<le> 1"
  unfolding two_writes_two_erases by simp

theorem erase_retried_until_success_then_never_witness:
  "erase_discipline False (events_since (scripted_world [False, True, False] (\<lambda>a. 0))
     (snd (snd (run_calls (STM32BootManager_ctor (Some scripted_ops))
        (scripted_world [False, True, False] (\<lambda>a. 0))
        [Write 0x08006000 0x20000000 8, WriteContinously 0x20000000 8,
         Write 0x08006000 0x20000000 8, WriteContinously 0x20000000 8])))) \<and>
   erase_results (events_since (scripted_world [False, True, False] (\<lambda>a. 0))
     (snd (snd (run_calls (STM32BootManager_ctor (Some scripted_ops))
        (scripted_world [False, True, False] (\<lambda>a. 0))
        [Write 0x08006000 0x20000000 8, WriteContinously 0x20000000 8,
         Write 0x08006000 0x20000000 8, WriteContinously 0x20000000 8])))) = [False, True]"
proof -
  let ?m = "STM32BootManager_ctor (Some scripted_ops)"
  let ?w = "scripted_world [False, True, False] (\<lambda>a. 0)"
  let ?cs = "[Write 0x08006000 0x20000000 8, WriteContinously 0x20000000 8,
              Write 0x08006000 0x20000000 8, WriteContinously 0x20000000 8]"
  have r: "run_calls ?m ?w ?cs =
      (fst (run_calls ?m ?w ?cs), fst (snd (run_calls ?m ?w ?cs)), snd (snd (run_calls ?m ?w ?cs)))"
    by simp
  have "erase_results (events_since ?w (snd (snd (run_calls ?m ?w ?cs)))) = [False, True]"
    by (simp add: run_defs double_defs)
  with erase_retried_until_success_then_never [OF r] show ?thesis
    by simp
qed


section \<open>The write cursor\<close>

lemma write_continously_unbound:
  "m_operations m = None \<Longrightarrow> write_continously m b s w = (False, m, w)"
  by (simp add: write_continously_def write_mgr_def erase_if_needed_def erase_app_def)

text \<open>One call: where the cursor goes and which address the capability is given.\<close>

lemma write_continously_step:
  assumes "write_continously m b s w = (ret, m', w')"
  shows "trace w' = trace w @ events_since w w' \<and>
         m_write_pointer m' = (if ret then m_write_pointer m + s else m_write_pointer m) \<and>
         set (write_addrs (events_since w w')) \<subseteq> {m_write_pointer m} \<and>
         (ret \<longrightarrow> write_addrs (events_since w w') = [m_write_pointer m])"
proof (cases "m_operations m")
  case None
  with assms show ?thesis
    by (simp add: write_continously_unbound events_since_def)
next
  case (Some ops)
  note cs = write_continously_cases [OF Some assms]
  consider (failed) "\<not> m_was_erased m" "\<not> fst (op_erase_app ops (op_unlock ops (machine w)))"
    | (fresh) "\<not> m_was_erased m" "fst (op_erase_app ops (op_unlock ops (machine w)))"
    | (erased) "m_was_erased m"
    by blast
  then show ?thesis
  proof cases
    case failed
    with cs show ?thesis by (simp add: events_since_def)
  next
    case fresh
    with cs show ?thesis by (simp add: events_since_def)
  next
    case erased
    with cs show ?thesis by (simp add: events_since_def)
  qed
qed

text \<open>
  A call returns \<open>true\<close> exactly when it reached the capability's \<open>write\<close> and that
  returned \<open>true\<close>.
\<close>

lemma write_continously_true_iff:
  assumes "write_continously m b s w = (ret, m', w')"
  shows "ret \<longleftrightarrow> EvWrite (m_write_pointer m) b s True \<in> set (events_since w w')"
proof (cases "m_operations m")
  case None
  with assms show ?thesis
    by (simp add: write_continously_unbound events_since_def)
next
  case (Some ops)
  note cs = write_continously_cases [OF Some assms]
  consider (failed) "\<not> m_was_erased m" "\<not> fst (op_erase_app ops (op_unlock ops (machine w)))"
    | (fresh) "\<not> m_was_erased m" "fst (op_erase_app ops (op_unlock ops (machine w)))"
    | (erased) "m_was_erased m"
    by blast
  then show ?thesis
  proof cases
    case failed
    with cs show ?thesis by (simp add: events_since_def)
  next
    case fresh
    with cs show ?thesis by (simp add: events_since_def)
  next
    case erased
    with cs show ?thesis by (simp add: events_since_def)
  qed
qed

lemma events_since_trans:
  "trace w1 = trace w @ e1 \<Longrightarrow> trace w2 = trace w1 @ e2 \<Longrightarrow>
   events_since w w2 = events_since w w1 @ events_since w1 w2"
  by (simp add: events_since_def)

lemma run_continuous:
  "run_calls m w (continuous_calls bs) = (rs, m', w') \<Longrightarrow>
   trace w' = trace w @ events_since w w' \<and> length rs = length bs \<and>
   m_write_pointer m' =
     m_write_pointer m + sum_list (map (\<lambda>((buffer, sz), r). if r then sz else 0) (zip bs rs)) \<and>
   (list_all (\<lambda>r. r) rs \<longrightarrow>
      write_addrs (events_since w w') =
        map (\<lambda>n. m_write_pointer m + sum_list (map snd (take n bs))) [0..<length bs])"
proof (induction bs arbitrary: m w rs m' w')
  case Nil
  then show ?case by (simp add: continuous_calls_def events_since_def)
next
  case (Cons x bs)
  obtain b s where x: "x = (b, s)" by (cases x)
  obtain r m1 w1 where step: "write_continously m b s w = (r, m1, w1)"
    by (cases "write_continously m b s w") auto
  obtain rs1 where rest: "run_calls m1 w1 (continuous_calls bs) = (rs1, m', w')"
    and rs: "rs = r # rs1"
    using Cons.prems step x by (auto simp: continuous_calls_def split: prod.splits)
  note s1 = write_continously_step [OF step]
  note s2 = Cons.IH [OF rest]
  have t1: "trace w1 = trace w @ events_since w w1"
    and t2: "trace w' = trace w1 @ events_since w1 w'"
    using s1 s2 by simp_all
  have since: "events_since w w' = events_since w w1 @ events_since w1 w'"
    using t1 t2 by (rule events_since_trans)
  have tr: "trace w' = trace w @ events_since w w'"
    using t1 t2 unfolding since by simp
  have upt: "[0..<Suc (length bs)] = 0 # map Suc [0..<length bs]"
    by (simp only: map_Suc_upt upt_conv_Cons [of 0 "Suc (length bs)"] zero_less_Suc)
  have ptr: "m_write_pointer m' =
     m_write_pointer m + sum_list (map (\<lambda>((buffer, sz), r). if r then sz else 0) (zip (x # bs) rs))"
    using s1 s2 rs x by (simp add: add.assoc)
  have addrs: "write_addrs (events_since w w') =
        map (\<lambda>n. m_write_pointer m + sum_list (map snd (take n (x # bs)))) [0..<length (x # bs)]"
    if all: "list_all (\<lambda>r. r) rs"
  proof -
    from all rs have r: "r" and all1: "list_all (\<lambda>r. r) rs1" by simp_all
    from s1 r have a1: "write_addrs (events_since w w1) = [m_write_pointer m]"
      and p1: "m_write_pointer m1 = m_write_pointer m + s" by simp_all
    from s2 all1 have a2: "write_addrs (events_since w1 w') =
        map (\<lambda>n. m_write_pointer m1 + sum_list (map snd (take n bs))) [0..<length bs]" by simp
    show ?thesis
      unfolding since write_addrs_append a1 a2 p1
      by (simp add: upt x comp_def add.assoc del: upt_Suc)
  qed
  from tr s2 rs ptr addrs show ?case by simp
qed

text \<open>
  C2. A fresh manager has its cursor at \<open>START_ADDRESS\<close>. After any sequence of
  \<open>write_continously\<close> calls the cursor is \<open>START_ADDRESS\<close> plus the sizes of the calls
  that returned \<open>true\<close>; when all of them did, the capability's \<open>write\<close> was called once
  per call, the \<open>n\<close>-th time with the address \<open>START_ADDRESS + s1 + ... + s(n-1)\<close>. A call
  that returns \<open>false\<close> leaves the cursor where it was. A call returns \<open>true\<close> exactly
  when its capability \<open>write\<close> was called and succeeded (lemma
  \<open>write_continously_true_iff\<close>). Addresses and sizes are 32-bit words, and so are the sums.
\<close>

theorem write_cursor_sequencing:
  assumes "run_calls (STM32BootManager_ctor operations) w (continuous_calls bs) = (rs, m', w')"
  shows "m_write_pointer (STM32BootManager_ctor operations) = START_ADDRESS \<and>
         trace w' = trace w @ events_since w w' \<and>
         (list_all (\<lambda>r. r) rs \<longrightarrow>
            write_addrs (events_since w w') =
              map (\<lambda>n. START_ADDRESS + sum_list (map snd (take n bs))) [0..<length bs]) \<and>
         m_write_pointer m' =
           START_ADDRESS +
             sum_list (map (\<lambda>((buffer, sz), r). if r then sz else 0) (zip bs rs)) \<and>
         (write_continously mx bx sx wx = (False, mx', wx') \<longrightarrow>
            m_write_pointer mx' = m_write_pointer mx)"
proof -
  have "m_write_pointer (STM32BootManager_ctor operations) = START_ADDRESS"
    by (simp add: STM32BootManager_ctor_def)
  moreover have "m_write_pointer mx' = m_write_pointer mx"
    if "write_continously mx bx sx wx = (False, mx', wx')"
    using write_continously_step [OF that] by simp
  ultimately show ?thesis
    using run_continuous [OF assms] by simp
qed


theorem write_cursor_sequencing_witness:
  "write_addrs (events_since (scripted_world [] (\<lambda>a. 0))
     (snd (snd (run_calls (STM32BootManager_ctor (Some scripted_ops)) (scripted_world [] (\<lambda>a. 0))
        (continuous_calls [(0x20000000, 4), (0x20000004, 8), (0x2000000C, 4)]))))) =
     [0x08006000, 0x08006004, 0x0800600C] \<and>
   m_write_pointer (fst (snd (run_calls (STM32BootManager_ctor (Some scripted_ops))
        (scripted_world [] (\<lambda>a. 0))
        (continuous_calls [(0x20000000, 4), (0x20000004, 8), (0x2000000C, 4)])))) = 0x08006010 \<and>
   m_write_pointer (fst (snd (write_continously
        \<lparr>m_operations = Some scripted_ops, m_was_erased = True, m_write_pointer = 0x08006010\<rparr>
        0x20000010 8 (scripted_world [False] (\<lambda>a. 0))))) = 0x08006010"
proof -
  let ?m = "STM32BootManager_ctor (Some scripted_ops)"
  let ?w = "scripted_world [] (\<lambda>a. 0)"
  let ?bs = "[(0x20000000, 4), (0x20000004, 8), (0x2000000C, 4)] :: (u32 \<times> u32) list"
  let ?run = "run_calls ?m ?w (continuous_calls ?bs)"
  let ?mf = "\<lparr>m_operations = Some scripted_ops, m_was_erased = True,
              m_write_pointer = 0x08006010\<rparr>"
  let ?wf = "scripted_world [False] (\<lambda>a. 0)"
  let ?call = "write_continously ?mf 0x20000010 8 ?wf"
  have r: "?run = (fst ?run, fst (snd ?run), snd (snd ?run))"
    by simp
  have ok: "list_all (\<lambda>r. r) (fst ?run)"
    by (simp add: run_defs double_defs continuous_calls_def)
  have three: "[0..<length ?bs] = [0, 1, 2]"
    by (simp add: upt_conv_Cons)
  have failing: "?call = (False, fst (snd ?call), snd (snd ?call))"
    by (simp add: run_defs double_defs)
  note inst = write_cursor_sequencing [OF r, where mx = ?mf and bx = "0x20000010" and sx = 8
      and wx = ?wf and mx' = "fst (snd ?call)" and wx' = "snd (snd ?call)"]
  from inst ok three
  have "write_addrs (events_since ?w (snd (snd ?run))) = [0x08006000, 0x08006004, 0x0800600C]"
    by (simp add: START_ADDRESS_def)
  moreover from inst failing have "m_write_pointer (fst (snd ?call)) = 0x08006010"
    by simp
  moreover have "m_write_pointer (fst (snd ?run)) = 0x08006010"
    by (simp add: run_defs double_defs continuous_calls_def START_ADDRESS_def)
  ultimately show ?thesis by simp
qed

section \<open>The cursor is not held inside the region\<close>

text \<open>
  One call of size \<open>0x1A004\<close>, four more than the region holds, and a second call.
\<close>

lemma overflow_run:
  "run_calls (STM32BootManager_ctor (Some scripted_ops)) (scripted_world [] (\<lambda>a. 0))
     (continuous_calls [(0x20000000, 0x1A004)]) =
   ([True],
    \<lparr>m_operations = Some scripted_ops, m_was_erased = True, m_write_pointer = 0x08020004\<rparr>,
    (scripted_world [] (\<lambda>a. 0))
      \<lparr>trace := [EvUnlock, EvEraseApp True, EvLock,
                 EvUnlock, EvWrite 0x08006000 0x20000000 0x1A004 True, EvLock]\<rparr>)"
  by (simp add: run_defs double_defs continuous_calls_def START_ADDRESS_def)

lemma overflow_next:
  "write_continously
     \<lparr>m_operations = Some scripted_ops, m_was_erased = True, m_write_pointer = 0x08020004\<rparr>
     0x20000000 8
     ((scripted_world [] (\<lambda>a. 0))
        \<lparr>trace := [EvUnlock, EvEraseApp True, EvLock,
                   EvUnlock, EvWrite 0x08006000 0x20000000 0x1A004 True, EvLock]\<rparr>) =
   (True,
    \<lparr>m_operations = Some scripted_ops, m_was_erased = True, m_write_pointer = 0x0802000C\<rparr>,
    (scripted_world [] (\<lambda>a. 0))
      \<lparr>trace := [EvUnlock, EvEraseApp True, EvLock,
                 EvUnlock, EvWrite 0x08006000 0x20000000 0x1A004 True, EvLock,
                 EvUnlock, EvWrite 0x08020004 0x20000000 8 True, EvLock]\<rparr>)"
  by (simp add: run_defs double_defs)

text \<open>
  C6. \<open>write_continously\<close> never compares the cursor with \<open>END_ADDRESS\<close>: there is a
  sequence of calls, all successful, after which the cursor lies beyond \<open>END_ADDRESS\<close>, and
  a further successful call whose capability \<open>write\<close> is given an address at or beyond
  \<open>END_ADDRESS\<close>.
\<close>

theorem write_continously_leaves_region:
  "\<exists>(ops :: bool list BootOperations) w bs rs m1 w1 buffer sz m2 w2.
     run_calls (STM32BootManager_ctor (Some ops)) w (continuous_calls bs) = (rs, m1, w1) \<and>
     list_all (\<lambda>r. r) rs \<and>
     END_ADDRESS < m_write_pointer m1 \<and>
     write_continously m1 buffer sz w1 = (True, m2, w2) \<and>
     (\<exists>a. write_addrs (events_since w1 w2) = [a] \<and> END_ADDRESS \<le> a)"
proof (intro exI conjI)
  show "run_calls (STM32BootManager_ctor (Some scripted_ops)) (scripted_world [] (\<lambda>a. 0))
     (continuous_calls [(0x20000000, 0x1A004)]) =
   ([True],
    \<lparr>m_operations = Some scripted_ops, m_was_erased = True, m_write_pointer = 0x08020004\<rparr>,
    (scripted_world [] (\<lambda>a. 0))
      \<lparr>trace := [EvUnlock, EvEraseApp True, EvLock,
                 EvUnlock, EvWrite 0x08006000 0x20000000 0x1A004 True, EvLock]\<rparr>)"
    by (rule overflow_run)
  show "list_all (\<lambda>r. r) [True]" by simp
  show "END_ADDRESS < m_write_pointer
     \<lparr>m_operations = Some scripted_ops, m_was_erased = True, m_write_pointer = 0x08020004\<rparr>"
    by (simp add: END_ADDRESS_def)
  show "write_continously
     \<lparr>m_operations = Some scripted_ops, m_was_erased = True, m_write_pointer = 0x08020004\<rparr>
     0x20000000 8
     ((scripted_world [] (\<lambda>a. 0))
        \<lparr>trace := [EvUnlock, EvEraseApp True, EvLock,
                   EvUnlock, EvWrite 0x08006000 0x20000000 0x1A004 True, EvLock]\<rparr>) =
   (True,
    \<lparr>m_operations = Some scripted_ops, m_was_erased = True, m_write_pointer = 0x0802000C\<rparr>,
    (scripted_world [] (\<lambda>a. 0))
      \<lparr>trace := [EvUnlock, EvEraseApp True, EvLock,
                 EvUnlock, EvWrite 0x08006000 0x20000000 0x1A004 True, EvLock,
                 EvUnlock, EvWrite 0x08020004 0x20000000 8 True, EvLock]\<rparr>)"
    by (rule overflow_next)
  show "write_addrs (events_since
      ((scripted_world [] (\<lambda>a. 0))
        \<lparr>trace := [EvUnlock, EvEraseApp True, EvLock,
                   EvUnlock, EvWrite 0x08006000 0x20000000 0x1A004 True, EvLock]\<rparr>)
      ((scripted_world [] (\<lambda>a. 0))
      \<lparr>trace := [EvUnlock, EvEraseApp True, EvLock,
                 EvUnlock, EvWrite 0x08006000 0x20000000 0x1A004 True, EvLock,
                 EvUnlock, EvWrite 0x08020004 0x20000000 8 True, EvLock]\<rparr>)) = [0x08020004]"
    by (simp add: events_since_def)
  show "END_ADDRESS \<le> 0x08020004" by (simp add: END_ADDRESS_def)
qed


end
